theory Spec2Isabelle
  imports Complex_Main "HOL-Library.AList"
begin

section \<open>Strings\<close>

text \<open>
  A JavaScript string is a sequence of UTF-16 code units. The model uses \<^typ>\<open>string\<close>,
  whose characters are the code units below 256 (Latin-1), which covers the product names
  and categories of the application (French text). On that range \<^verbatim>\<open>toLowerCase\<close> works
  unit by unit, the class \<^verbatim>\<open>\s\<close> is TAB, LF, VT, FF, CR, SPACE and NBSP, and \<^verbatim>\<open>\w\<close> is
  \<^verbatim>\<open>[A-Za-z0-9_]\<close>.
\<close>

definition isSpace :: "char \<Rightarrow> bool" where
  "isSpace c = (let n = (of_char c :: nat) in (9 \<le> n \<and> n \<le> 13) \<or> n = 32 \<or> n = 160)"

definition isWord :: "char \<Rightarrow> bool" where
  "isWord c = (let n = (of_char c :: nat) in
     (48 \<le> n \<and> n \<le> 57) \<or> (65 \<le> n \<and> n \<le> 90) \<or> n = 95 \<or> (97 \<le> n \<and> n \<le> 122))"

definition toLowerChar :: "char \<Rightarrow> char" where
  "toLowerChar c = (let n = (of_char c :: nat) in
     if (65 \<le> n \<and> n \<le> 90) \<or> (192 \<le> n \<and> n \<le> 222 \<and> n \<noteq> 215) then char_of (n + 32) else c)"

definition toLowerCase :: "string \<Rightarrow> string" where
  "toLowerCase s = map toLowerChar s"

text \<open>\<^verbatim>\<open>String.prototype.trim\<close>: white space and line terminators go from both ends.\<close>

definition trim :: "string \<Rightarrow> string" where
  "trim s = rev (dropWhile isSpace (rev (dropWhile isSpace s)))"

text \<open>\<^verbatim>\<open>.replace(/\s+/g, ' ')\<close>: every maximal run of white space becomes one space.\<close>

function replaceSpaces :: "string \<Rightarrow> string" where
  "replaceSpaces [] = []"
| "replaceSpaces (c # cs) =
     (if isSpace c then CHR '' '' # replaceSpaces (dropWhile isSpace cs)
      else c # replaceSpaces cs)"
  by pat_completeness auto
termination
  by (relation "measure length") (auto simp: length_dropWhile_le less_Suc_eq_le)

text \<open>\<^verbatim>\<open>.replace(/[^\w\s]/g, '')\<close>: every unit that is neither a word unit nor white space goes.\<close>

definition removeSpecial :: "string \<Rightarrow> string" where
  "removeSpecial s = filter (\<lambda>c. isWord c \<or> isSpace c) s"

text \<open>
  \<^verbatim>\<open>.replace(/\b(100s?|20s?|25s?)\b/g, '')\<close>. The engine scans from the left. At a position
  whose previous unit is not a word unit (or at the start) it tries the alternatives in
  order; after the digits the optional \<^verbatim>\<open>s\<close> is greedy, and the closing \<^verbatim>\<open>\b\<close> holds when
  the next unit is not a word unit (or the string ends). \<open>wordEnd\<close> is that closing
  \<^verbatim>\<open>\b\<close>; \<open>matchLit\<close> gives the length matched by one alternative (0: no match),
  first with the \<^verbatim>\<open>s\<close>, then without it; \<open>matchSizeToken\<close> gives the length matched by
  the group.
\<close>

definition wordEnd :: "string \<Rightarrow> bool" where
  "wordEnd r = (case r of [] \<Rightarrow> True | c # _ \<Rightarrow> \<not> isWord c)"

definition matchLit :: "string \<Rightarrow> string \<Rightarrow> nat" where
  "matchLit lit s =
     (if take (length lit) s = lit then
        (case drop (length lit) s of
           [] \<Rightarrow> length lit
         | c # r \<Rightarrow> if c = CHR ''s'' \<and> wordEnd r then length lit + 1
                    else if \<not> isWord c then length lit else 0)
      else 0)"

definition matchSizeToken :: "string \<Rightarrow> nat" where
  "matchSizeToken s =
     (if 0 < matchLit ''100'' s then matchLit ''100'' s
      else if 0 < matchLit ''20'' s then matchLit ''20'' s
      else matchLit ''25'' s)"

text \<open>
  The global replacement: \<open>prevWord\<close> tells whether the unit before the current position
  (in the string being scanned) is a word unit, which decides the opening \<^verbatim>\<open>\b\<close>.
\<close>

function removeSizeTokens :: "bool \<Rightarrow> string \<Rightarrow> string" where
  "removeSizeTokens prevWord [] = []"
| "removeSizeTokens prevWord (c # cs) =
     (if \<not> prevWord \<and> 0 < matchSizeToken (c # cs)
      then removeSizeTokens True (drop (matchSizeToken (c # cs)) (c # cs))
      else c # removeSizeTokens (isWord c) cs)"
  by pat_completeness auto
termination
  by (relation "measure (\<lambda>(p, s). length s)") auto

text \<open>The source's \<^verbatim>\<open>normalizeProductName\<close>, step by step in the source's order.\<close>

definition normalizeProductName :: "string \<Rightarrow> string" where
  "normalizeProductName name =
     trim (removeSizeTokens False (removeSpecial (replaceSpaces (trim (toLowerCase name)))))"

text \<open>\<^verbatim>\<open>a.includes(b)\<close>: \<open>b\<close> occurs in \<open>a\<close> as a contiguous run (the empty string always does).\<close>

fun includesStr :: "string \<Rightarrow> string \<Rightarrow> bool" where
  "includesStr [] b = (b = [])"
| "includesStr (c # cs) b = (take (length b) (c # cs) = b \<or> includesStr cs b)"

text \<open>\<^verbatim>\<open>s.split(' ')\<close>: cut at every single space; two adjacent spaces give an empty piece,
  and the empty string gives one empty piece.\<close>

fun splitStr :: "char \<Rightarrow> string \<Rightarrow> string list" where
  "splitStr sep [] = [[]]"
| "splitStr sep (c # cs) =
     (if c = sep then [] # splitStr sep cs
      else (case splitStr sep cs of [] \<Rightarrow> [[c]] | w # ws \<Rightarrow> (c # w) # ws))"

section \<open>Numbers\<close>

text \<open>
  A JavaScript number is an IEEE 754 double. A price is modelled by the rational value of
  the double, and each arithmetic operation of the source on prices by the exact operation
  followed by the rounding to the nearest double, ties to the even mantissa (53 bits).
  \<open>binExponent x\<close> is the \<open>e\<close> with \<open>2\<^sup>e \<le> x < 2\<^sup>e\<^sup>+\<^sup>1\<close> for a positive \<open>x\<close>, and the gap
  between neighbouring doubles at \<open>x\<close> is \<open>2\<^sup>e\<^sup>-\<^sup>5\<^sup>2\<close>. Overflow to infinity and the
  subnormal range (below \<open>2\<^sup>-\<^sup>1\<^sup>0\<^sup>2\<^sup>2\<close>) are outside the model, as are NaN and the sign
  of zero.
\<close>

fun bitLength :: "nat \<Rightarrow> nat" where
  "bitLength n = (if n = 0 then 0 else Suc (bitLength (n div 2)))"

definition pow2 :: "int \<Rightarrow> rat" where
  "pow2 e = (if 0 \<le> e then 2 ^ nat e else 1 / 2 ^ nat (- e))"

definition binExponent :: "rat \<Rightarrow> int" where
  "binExponent x =
     (if 1 \<le> x then int (bitLength (nat \<lfloor>x\<rfloor>)) - 1
      else - int (bitLength (nat (\<lceil>1 / x\<rceil> - 1))))"

definition roundEven :: "rat \<Rightarrow> int" where
  "roundEven y =
     (let f = \<lfloor>y\<rfloor>; r = y - of_int f
      in if r < 1 / 2 then f else if 1 / 2 < r then f + 1 else if even f then f else f + 1)"

text \<open>The double nearest to a rational; a decimal literal such as \<^verbatim>\<open>1.01\<close> denotes
  \<open>toDouble (101 / 100)\<close>.\<close>

definition toDouble :: "rat \<Rightarrow> rat" where
  "toDouble x =
     (if x = 0 then 0
      else (let ulp = pow2 (binExponent \<bar>x\<bar> - 52) in of_int (roundEven (x / ulp)) * ulp))"

text \<open>\<^verbatim>\<open>a + b\<close>, \<^verbatim>\<open>a * b\<close> and \<^verbatim>\<open>a / b\<close> on numbers.\<close>

definition numAdd :: "rat \<Rightarrow> rat \<Rightarrow> rat" where
  "numAdd a b = toDouble (a + b)"

definition numMul :: "rat \<Rightarrow> rat \<Rightarrow> rat" where
  "numMul a b = toDouble (a * b)"

definition numDiv :: "rat \<Rightarrow> rat \<Rightarrow> rat" where
  "numDiv a b = toDouble (a / b)"

text \<open>\<^verbatim>\<open>Math.round\<close>: the nearest integer, the upper one at a tie.\<close>

definition mathRound :: "rat \<Rightarrow> int" where
  "mathRound x = \<lfloor>x + 1 / 2\<rfloor>"

section \<open>Data model\<close>

text \<open>
  The records follow the fields the source reads and writes (\<^verbatim>\<open>Product\<close>,
  \<^verbatim>\<open>RegisterSale\<close>); the field names carry a prefix because both types have \<^verbatim>\<open>id\<close>,
  \<^verbatim>\<open>category\<close> and \<^verbatim>\<open>price\<close>. Quantities are integers (JavaScript numbers below
  \<open>2\<^sup>5\<^sup>3\<close>, on which the arithmetic is exact). A price is the rational value of a
  JavaScript number, and the arithmetic on prices is the one of the section on numbers.
  A \<^verbatim>\<open>Date\<close> is its time value (milliseconds since the epoch), which
  is what \<^verbatim>\<open><\<close> and \<^verbatim>\<open>>\<close> compare; \<^verbatim>\<open>initialStockDate\<close> (a day, \<^verbatim>\<open>YYYY-MM-DD\<close>) is the
  number of that day since the epoch. Generated texts are kept symbolic: a description is
  either a given text or the template of the automatic creation with its two arguments.
\<close>

datatype Description = NoDescription | Text string | AutoCreated nat int

record Product =
  p_id :: string
  p_name :: string
  p_category :: string
  p_price :: rat
  p_stock :: int
  p_initialStock :: int
  p_initialStockDate :: "int option"
  p_quantitySold :: int
  p_minStock :: int
  p_description :: Description

record RegisterSale =
  s_id :: string
  s_product :: string
  s_category :: string
  s_register :: string
  s_date :: int
  s_seller :: string
  s_quantity :: int
  s_price :: rat
  s_total :: rat

section \<open>Product matcher\<close>

text \<open>The three predicates handed to \<^verbatim>\<open>products.find\<close> in \<^verbatim>\<open>findMatchingProduct\<close>, in the
  source's order; \<open>normalizedSaleName\<close> and \<open>normalizedSaleCategory\<close> are the two
  constants computed at the top of the function.\<close>

definition exactTier :: "string \<Rightarrow> string \<Rightarrow> Product \<Rightarrow> bool" where
  "exactTier normalizedSaleName normalizedSaleCategory product =
     (normalizeProductName (p_name product) = normalizedSaleName \<and>
      trim (toLowerCase (p_category product)) = normalizedSaleCategory)"

definition partialTier :: "string \<Rightarrow> string \<Rightarrow> Product \<Rightarrow> bool" where
  "partialTier normalizedSaleName normalizedSaleCategory product =
     (let normalizedProductName = normalizeProductName (p_name product);
          normalizedProductCategory = trim (toLowerCase (p_category product))
      in normalizedProductCategory = normalizedSaleCategory \<and>
         (includesStr normalizedProductName normalizedSaleName \<or>
          includesStr normalizedSaleName normalizedProductName))"

text \<open>\<^verbatim>\<open>Math.ceil(n * 0.7)\<close> for a length \<open>n\<close>. The double nearest to 0.7 lies below 0.7 by
  less than \<open>10\<^sup>-\<^sup>1\<^sup>6\<close>, so for every array length the rounded product has the ceiling of
  the exact \<open>7n/10\<close>.\<close>

definition ceil70 :: "nat \<Rightarrow> nat" where
  "ceil70 n = nat \<lceil>(of_nat n :: rat) * (7 / 10)\<rceil>"

definition mainWords :: "string \<Rightarrow> string list" where
  "mainWords normalizedName = filter (\<lambda>word. 2 < length word) (splitStr CHR '' '' normalizedName)"

definition matchingWords :: "string list \<Rightarrow> string list \<Rightarrow> string list" where
  "matchingWords saleWords productWords =
     filter (\<lambda>saleWord. list_ex (\<lambda>productWord.
        includesStr productWord saleWord \<or> includesStr saleWord productWord) productWords) saleWords"

definition fuzzyTier :: "string \<Rightarrow> string \<Rightarrow> Product \<Rightarrow> bool" where
  "fuzzyTier normalizedSaleName normalizedSaleCategory product =
     (let normalizedProductName = normalizeProductName (p_name product);
          normalizedProductCategory = trim (toLowerCase (p_category product))
      in if normalizedProductCategory \<noteq> normalizedSaleCategory then False
         else let saleWords = mainWords normalizedSaleName;
                  productWords = mainWords normalizedProductName
              in ceil70 (length saleWords) \<le> length (matchingWords saleWords productWords))"

definition findMatchingProduct :: "string \<Rightarrow> string \<Rightarrow> Product list \<Rightarrow> Product option" where
  "findMatchingProduct saleName saleCategory products =
     (let normalizedSaleName = normalizeProductName saleName;
          normalizedSaleCategory = trim (toLowerCase saleCategory)
      in case find (exactTier normalizedSaleName normalizedSaleCategory) products of
           Some m \<Rightarrow> Some m
         | None \<Rightarrow>
            (case find (partialTier normalizedSaleName normalizedSaleCategory) products of
               Some m \<Rightarrow> Some m
             | None \<Rightarrow> find (fuzzyTier normalizedSaleName normalizedSaleCategory) products))"

section \<open>Stock reconciliation\<close>

text \<open>
  \<^verbatim>\<open>calculateStockFinal\<close> (module \<^verbatim>\<open>utils/calculateStockFinal\<close>) is imported by the source
  files and called by them, but the module is not among them. The definitions of this
  section that say so are written from section 4.3 of the specification; the code that
  calls them follows.
\<close>

text \<open>Modelled from the spec: the text of the warning of \<^verbatim>\<open>calculateStockFinal\<close>, which the
  specification leaves open; kept symbolic, with the final stock and the ignored sales.\<close>

datatype Warning = Warning int "RegisterSale list"

text \<open>Modelled from the spec: the result of \<^verbatim>\<open>calculateStockFinal\<close>, the reconciliation
  result of the specification; the attributable sales are the field \<^verbatim>\<open>validSales\<close> that the
  callers read.\<close>

record StockCalculation =
  finalStock :: int
  validSales :: "RegisterSale list"
  ignoredSales :: "RegisterSale list"
  hasInconsistentStock :: bool
  warningMessage :: "Warning option"

text \<open>Modelled from the spec: the day of a time value, for the comparison of a sale with
  the initial stock date at day resolution (time of day ignored).\<close>

definition dayOf :: "int \<Rightarrow> int" where
  "dayOf t = t div 86400000"

text \<open>Modelled from the spec: the filter of \<^verbatim>\<open>calculateStockFinal\<close> for the sales that
  match the product: the matcher, run against the catalog that holds this product alone,
  finds it.\<close>

definition matchesProduct :: "Product \<Rightarrow> RegisterSale \<Rightarrow> bool" where
  "matchesProduct product sale =
     (findMatchingProduct (s_product sale) (s_category sale) [product] \<noteq> None)"

text \<open>Modelled from the spec: the split of \<^verbatim>\<open>calculateStockFinal\<close> at the initial stock
  date: without a date every matched sale counts, with a date the sales of that day or
  later.\<close>

definition attributable :: "Product \<Rightarrow> RegisterSale \<Rightarrow> bool" where
  "attributable product sale =
     (case p_initialStockDate product of
        None \<Rightarrow> True
      | Some d \<Rightarrow> d \<le> dayOf (s_date sale))"

text \<open>Modelled from the spec: \<^verbatim>\<open>calculateStockFinal\<close>, absent from the source files. The
  final stock is the initial stock less the quantities of the attributable sales, never
  clamped; the result is flagged when the final stock is negative or a matched sale lies
  before the initial stock date.\<close>

definition calculateStockFinal :: "Product \<Rightarrow> RegisterSale list \<Rightarrow> StockCalculation" where
  "calculateStockFinal product allSales =
     (let matched = filter (matchesProduct product) allSales;
          valid = filter (attributable product) matched;
          ignored = filter (\<lambda>sale. \<not> attributable product sale) matched;
          final = p_initialStock product - sum_list (map s_quantity valid);
          inconsistent = (final < 0 \<or> ignored \<noteq> [])
      in \<lparr>finalStock = final, validSales = valid, ignoredSales = ignored,
          hasInconsistentStock = inconsistent,
          warningMessage = (if inconsistent then Some (Warning final ignored) else None)\<rparr>)"

text \<open>
  \<^verbatim>\<open>recalculateProductQuantities\<close>: the list handed to \<^verbatim>\<open>setProducts\<close>. The write of the
  changed products to the store and the alerts that follow do not change that list.
  \<^verbatim>\<open>a || b\<close> on numbers takes \<open>b\<close> when \<open>a\<close> is 0.
\<close>

definition recalculateProduct :: "RegisterSale list \<Rightarrow> Product \<Rightarrow> Product" where
  "recalculateProduct registerSales product =
     (let calculation = calculateStockFinal product registerSales;
          initialStock = (if p_initialStock product \<noteq> 0 then p_initialStock product
                          else p_stock product +
                               (if p_quantitySold product \<noteq> 0 then p_quantitySold product else 0));
          totalQuantitySold = foldl (\<lambda>sum sale. sum + s_quantity sale) 0 (validSales calculation);
          finalStock = finalStock calculation
      in product\<lparr>p_initialStock := initialStock, p_quantitySold := totalQuantitySold,
                  p_stock := finalStock\<rparr>)"

definition recalculateProductQuantities :: "Product list \<Rightarrow> RegisterSale list \<Rightarrow> Product list" where
  "recalculateProductQuantities products registerSales =
     map (recalculateProduct registerSales) products"

section \<open>Stock statistics\<close>

text \<open>\<^verbatim>\<open>stockCalculationCache\<close>: a \<^verbatim>\<open>Map\<close> from product id to the product's calculation,
  filled in catalog order, so that a later product with the same id overwrites the entry.\<close>

definition stockCalculationCache ::
    "Product list \<Rightarrow> RegisterSale list \<Rightarrow> (string \<rightharpoonup> StockCalculation)" where
  "stockCalculationCache products registerSales =
     foldl (\<lambda>cache product. cache(p_id product \<mapsto> calculateStockFinal product registerSales))
       Map.empty products"

record StockStats =
  totalProducts :: nat
  totalStock :: int
  totalValue :: rat
  outOfStock :: nat
  lowStock :: nat
  filteredCount :: nat

text \<open>One round of the \<^verbatim>\<open>forEach\<close> of \<^verbatim>\<open>stockStats\<close>: \<^verbatim>\<open>?.\<close> and \<^verbatim>\<open>??\<close> fall back on the stored
  stock when the cache has no entry.\<close>

definition stockStatsStep ::
    "(string \<rightharpoonup> StockCalculation) \<Rightarrow> StockStats \<Rightarrow> Product \<Rightarrow> StockStats" where
  "stockStatsStep cache acc product =
     (let finalStock = (case cache (p_id product) of
                          Some stockCalculation \<Rightarrow> finalStock stockCalculation
                        | None \<Rightarrow> p_stock product);
          acc1 = acc\<lparr>totalStock := totalStock acc + finalStock,
                     totalValue := numAdd (totalValue acc)
                                     (numMul (of_int finalStock) (p_price product))\<rparr>
      in if finalStock = 0 then acc1\<lparr>outOfStock := outOfStock acc1 + 1\<rparr>
         else if finalStock \<le> p_minStock product then acc1\<lparr>lowStock := lowStock acc1 + 1\<rparr>
         else acc1)"

text \<open>\<open>filteredLength\<close> is \<^verbatim>\<open>filteredAndSortedProducts.length\<close>, which depends on the filters of
  the view only.\<close>

definition stockStats :: "Product list \<Rightarrow> RegisterSale list \<Rightarrow> nat \<Rightarrow> StockStats" where
  "stockStats products registerSales filteredLength =
     foldl (stockStatsStep (stockCalculationCache products registerSales))
       \<lparr>totalProducts = length products, totalStock = 0, totalValue = 0,
        outOfStock = 0, lowStock = 0, filteredCount = filteredLength\<rparr>
       products"

section \<open>Synchronisation of the catalog from the sales\<close>

text \<open>The value kept per key in \<^verbatim>\<open>salesProductMap\<close>. A JavaScript \<^verbatim>\<open>Map\<close> iterates in the
  order in which its keys were first set, so the map is an association list.\<close>

record SalesData =
  sd_name :: string
  sd_category :: string
  totalQuantitySold :: int
  averagePrice :: rat
  firstSaleDate :: int
  lastSaleDate :: int
  salesCount :: nat

definition productKey :: "RegisterSale \<Rightarrow> string" where
  "productKey sale =
     toLowerCase (trim (s_product sale)) @ ''|'' @ toLowerCase (trim (s_category sale))"

text \<open>One round of \<^verbatim>\<open>registerSales.forEach\<close>. The source updates the stored object field by
  field; the average is computed from the count before the count grows.\<close>

definition addSale :: "(string \<times> SalesData) list \<Rightarrow> RegisterSale \<Rightarrow> (string \<times> SalesData) list" where
  "addSale salesProductMap sale =
     (case map_of salesProductMap (productKey sale) of
        Some existing \<Rightarrow>
          AList.update (productKey sale)
            (existing\<lparr>
               totalQuantitySold := totalQuantitySold existing + s_quantity sale,
               averagePrice :=
                 numDiv (numAdd (numMul (averagePrice existing) (of_nat (salesCount existing)))
                                (s_price sale))
                        (of_nat (salesCount existing + 1)),
               salesCount := salesCount existing + 1,
               lastSaleDate := (if lastSaleDate existing < s_date sale then s_date sale
                                else lastSaleDate existing),
               firstSaleDate := (if s_date sale < firstSaleDate existing then s_date sale
                                 else firstSaleDate existing)\<rparr>)
            salesProductMap
      | None \<Rightarrow>
          AList.update (productKey sale)
            \<lparr>sd_name = trim (s_product sale), sd_category = trim (s_category sale),
             totalQuantitySold = s_quantity sale, averagePrice = s_price sale,
             firstSaleDate = s_date sale, lastSaleDate = s_date sale, salesCount = 1\<rparr>
            salesProductMap)"

definition buildSalesProductMap :: "RegisterSale list \<Rightarrow> (string \<times> SalesData) list" where
  "buildSalesProductMap registerSales = foldl addSale [] registerSales"

definition findMissingProducts ::
    "(string \<times> SalesData) list \<Rightarrow> Product list \<Rightarrow> (string \<times> SalesData) list" where
  "findMissingProducts salesProductMap products =
     filter (\<lambda>(productKey, salesData).
        findMatchingProduct (sd_name salesData) (sd_category salesData) products = None)
       salesProductMap"

text \<open>The product written for one missing group; \<open>docId\<close> is the id of the fresh document
  reference. The price is \<^verbatim>\<open>Math.round(salesData.averagePrice * 100) / 100\<close> in the
  arithmetic of numbers. For a quantity below \<open>2\<^sup>5\<^sup>3\<close> the double
  \<^verbatim>\<open>totalQuantitySold / 10\<close> has the ceiling of the exact quotient.\<close>

definition newProduct :: "string \<Rightarrow> SalesData \<Rightarrow> Product" where
  "newProduct docId salesData =
     (let estimatedInitialStock = max (totalQuantitySold salesData) 10;
          currentStock = 0;
          minStock = max \<lceil>(of_int (totalQuantitySold salesData) :: rat) / 10\<rceil> 5
      in \<lparr>p_id = docId, p_name = sd_name salesData, p_category = sd_category salesData,
          p_price = numDiv (of_int (mathRound (numMul (averagePrice salesData) 100))) 100,
          p_stock = currentStock, p_initialStock = estimatedInitialStock,
          p_initialStockDate = None,
          p_quantitySold = totalQuantitySold salesData, p_minStock = minStock,
          p_description = AutoCreated (salesCount salesData) (firstSaleDate salesData)\<rparr>)"

definition BATCH_SIZE :: nat where
  "BATCH_SIZE = 200"

datatype SyncError = SyncError

text \<open>
  The body of \<^verbatim>\<open>batch.forEach\<close>: one product per missing group of the batch, each with
  the id of a fresh document reference. \<open>newDocId n\<close> is the id of the \<open>n\<close>-th reference
  made (from 0), and \<open>made\<close> is the number of references made before this batch.
\<close>

definition newProducts ::
    "(nat \<Rightarrow> string) \<Rightarrow> nat \<Rightarrow> (string \<times> SalesData) list \<Rightarrow> Product list" where
  "newProducts newDocId made batch =
     map (\<lambda>(n, (productKey, salesData)). newProduct (newDocId n) salesData)
       (enumerate made batch)"

text \<open>
  The loop over the batches. The store is an external collaborator: \<open>commitOk k\<close> tells
  whether the commit of batch number \<open>k\<close> (from 0) succeeds. \<open>createdProducts\<close> is the
  local list of the source, filled before the commit; \<open>committed\<close> collects the products
  of the batches whose commit succeeded, that is what the store holds afterwards. A failing
  commit throws; the \<^verbatim>\<open>catch\<close> logs and throws the fixed error, and the local list is
  lost.
\<close>

function syncBatches ::
    "(nat \<Rightarrow> bool) \<Rightarrow> (nat \<Rightarrow> string) \<Rightarrow> nat \<Rightarrow> (string \<times> SalesData) list \<Rightarrow>
     Product list \<Rightarrow> Product list \<Rightarrow> (SyncError + Product list) \<times> Product list" where
  "syncBatches commitOk newDocId i missingProducts createdProducts committed =
     (if i < length missingProducts then
        (let batch = take BATCH_SIZE (drop i missingProducts);
             written = newProducts newDocId (length createdProducts) batch
         in if commitOk (i div BATCH_SIZE)
            then syncBatches commitOk newDocId (i + BATCH_SIZE) missingProducts
                   (createdProducts @ written) (committed @ written)
            else (Inl SyncError, committed))
      else (Inr createdProducts, committed))"
  by pat_completeness auto
termination
  by (relation "measure (\<lambda>(ok, ids, i, missing, created, committed). length missing - i)")
     (auto simp: BATCH_SIZE_def)

text \<open>
  The running average of a list of prices, as the specification words it: the incremental
  mean, weighted by the number of prices folded in so far (quantities play no part), in
  the arithmetic of numbers. The accumulator is the average with that number.
\<close>

definition averageStep :: "rat \<times> nat \<Rightarrow> rat \<Rightarrow> rat \<times> nat" where
  "averageStep acc price =
     (case acc of (average, count) \<Rightarrow>
        (numDiv (numAdd (numMul average (of_nat count)) price) (of_nat (count + 1)),
         count + 1))"

definition runningAverage :: "rat list \<Rightarrow> rat" where
  "runningAverage prices =
     (case prices of [] \<Rightarrow> 0 | p # ps \<Rightarrow> fst (foldl averageStep (p, 1) ps))"

text \<open>The sales of one key, in the order of the list.\<close>

definition salesOfKey :: "string \<Rightarrow> RegisterSale list \<Rightarrow> RegisterSale list" where
  "salesOfKey k registerSales = filter (\<lambda>sale. productKey sale = k) registerSales"

text \<open>The summary texts are kept symbolic: the text returned without sales, the text
  returned when nothing is missing (with the number of keys), and the report of
  \<^verbatim>\<open>generateSyncSummary\<close> with its two arguments.\<close>

datatype Summary =
    NoSalesData
  | AllProductsExist nat
  | SyncReport "Product list" nat

record SyncResult =
  created :: "Product list"
  summary :: Summary

text \<open>\<^verbatim>\<open>autoSyncProductsFromSales\<close>: the value returned or the error thrown, with the products
  the store received.\<close>

definition autoSyncProductsFromSales ::
    "(nat \<Rightarrow> bool) \<Rightarrow> (nat \<Rightarrow> string) \<Rightarrow> RegisterSale list \<Rightarrow> Product list \<Rightarrow>
     (SyncError + SyncResult) \<times> Product list" where
  "autoSyncProductsFromSales commitOk newDocId registerSales products =
     (if registerSales = [] then (Inr \<lparr>created = [], summary = NoSalesData\<rparr>, [])
      else
        (let salesProductMap = buildSalesProductMap registerSales;
             missingProducts = findMissingProducts salesProductMap products
         in if missingProducts = []
            then (Inr \<lparr>created = [], summary = AllProductsExist (length salesProductMap)\<rparr>, [])
            else (case syncBatches commitOk newDocId 0 missingProducts [] [] of
                    (Inl e, committed) \<Rightarrow> (Inl e, committed)
                  | (Inr createdProducts, committed) \<Rightarrow>
                      (Inr \<lparr>created = createdProducts,
                            summary = SyncReport createdProducts (length salesProductMap)\<rparr>,
                       committed))))"

section \<open>The fuzzy test in the words of the specification\<close>

text \<open>
  The specification words the fuzzy tier as follows: split both normalized names on white
  space, keep the tokens longer than 2 characters; the product matches when at least
  \<open>\<lceil>0.7 \<times> number of kept sale tokens\<rceil>\<close> of the kept tokens of the sale each have some
  kept token of the catalog name that contains them or is contained in them. \<open>splitWhen\<close>
  cuts at every unit of a class; the empty pieces between adjacent white space are
  dropped with the short tokens.
\<close>

fun splitWhen :: "(char \<Rightarrow> bool) \<Rightarrow> string \<Rightarrow> string list" where
  "splitWhen sep [] = [[]]"
| "splitWhen sep (c # cs) =
     (if sep c then [] # splitWhen sep cs
      else (case splitWhen sep cs of [] \<Rightarrow> [[c]] | w # ws \<Rightarrow> (c # w) # ws))"

definition keptTokens :: "string \<Rightarrow> string list" where
  "keptTokens normalizedName = filter (\<lambda>token. 2 < length token) (splitWhen isSpace normalizedName)"

definition specFuzzyMatch :: "string \<Rightarrow> string \<Rightarrow> bool" where
  "specFuzzyMatch saleName catalogName =
     (let saleTokens = keptTokens (normalizeProductName saleName);
          catalogTokens = keptTokens (normalizeProductName catalogName)
      in ceil70 (length saleTokens) \<le>
         length (filter (\<lambda>token. list_ex (\<lambda>catalogToken.
            includesStr catalogToken token \<or> includesStr token catalogToken) catalogTokens)
           saleTokens))"

section \<open>Predicates on names\<close>

text \<open>
  Predicates used to state and prove what a second normalization does. \<open>noToken\<close>: the
  scan of \<open>removeSizeTokens\<close> finds no size token. \<open>adjacentSpaces\<close>: two spaces stand
  side by side. \<open>trimmed\<close>: no white space at either end. \<open>clean\<close>: only word units in
  lower case and spaces.
\<close>

fun noToken :: "bool \<Rightarrow> string \<Rightarrow> bool" where
  "noToken prevWord [] = True"
| "noToken prevWord (c # cs) =
     (\<not> (\<not> prevWord \<and> 0 < matchSizeToken (c # cs)) \<and> noToken (isWord c) cs)"

fun adjacentSpaces :: "string \<Rightarrow> bool" where
  "adjacentSpaces [] = False"
| "adjacentSpaces [c] = False"
| "adjacentSpaces (a # b # cs) = ((a = CHR '' '' \<and> b = CHR '' '') \<or> adjacentSpaces (b # cs))"

definition trimmed :: "string \<Rightarrow> bool" where
  "trimmed s = (s = [] \<or> (\<not> isSpace (hd s) \<and> \<not> isSpace (last s)))"

definition clean :: "string \<Rightarrow> bool" where
  "clean s = (\<forall>c \<in> set s. (isWord c \<or> c = CHR '' '') \<and> toLowerChar c = c)"

section \<open>Example data\<close>

text \<open>A catalog product and a sale with the fields that the examples vary; the other
  fields are fixed.\<close>

definition exampleProduct :: "string \<Rightarrow> string \<Rightarrow> string \<Rightarrow> int \<Rightarrow> int \<Rightarrow> Product" where
  "exampleProduct i n c initial minimum =
     \<lparr>p_id = i, p_name = n, p_category = c, p_price = 2, p_stock = initial,
      p_initialStock = initial, p_initialStockDate = None, p_quantitySold = 0,
      p_minStock = minimum, p_description = NoDescription\<rparr>"

definition exampleSale :: "string \<Rightarrow> string \<Rightarrow> string \<Rightarrow> int \<Rightarrow> rat \<Rightarrow> RegisterSale" where
  "exampleSale i n c quantity price =
     \<lparr>s_id = i, s_product = n, s_category = c, s_register = ''r1'', s_date = 0,
      s_seller = ''a'', s_quantity = quantity, s_price = price,
      s_total = of_int quantity * price\<rparr>"

text \<open>The ids of fresh document references in the examples.\<close>

definition exampleDocId :: "nat \<Rightarrow> string" where
  "exampleDocId n = ''doc'' @ replicate n CHR ''i''"

text \<open>\<open>exampleSales n\<close>: \<open>n\<close> sales of \<open>n\<close> different products of one category, named
  \<^verbatim>\<open>x\<close>, \<^verbatim>\<open>xx\<close>, and so on. \<open>everyCommit\<close>: a store that accepts every batch.
  \<open>firstCommitOnly\<close>: a store that accepts the first batch and refuses every later one.\<close>

fun exampleSales :: "nat \<Rightarrow> RegisterSale list" where
  "exampleSales 0 = []"
| "exampleSales (Suc n) =
     exampleSale ''s'' (replicate (Suc n) CHR ''x'') ''jeux'' 1 1 # exampleSales n"

definition everyCommit :: "nat \<Rightarrow> bool" where
  "everyCommit k = True"

definition firstCommitOnly :: "nat \<Rightarrow> bool" where
  "firstCommitOnly k = (k = 0)"

section \<open>Conservation of stock\<close>

lemma foldl_quantity:
  "foldl (\<lambda>sum sale. sum + s_quantity sale) a sales = a + sum_list (map s_quantity sales)"
  by (induction sales arbitrary: a) simp_all

lemma finalStock_calculateStockFinal:
  "finalStock (calculateStockFinal product allSales) =
     p_initialStock product -
     sum_list (map s_quantity (validSales (calculateStockFinal product allSales)))"
  by (simp add: calculateStockFinal_def Let_def)

text \<open>
  Claim C1. For every product and every list of sales, the final stock of the
  reconciliation plus the quantities of its attributable sales is the initial stock of the
  product, as integers: nothing is clamped when the final stock is negative. The stock and
  the quantity sold that \<^verbatim>\<open>recalculateProductQuantities\<close> stores for the product add up to
  that same initial stock.
\<close>

theorem reconcile_conservation:
  "finalStock (calculateStockFinal product allSales) +
     sum_list (map s_quantity (validSales (calculateStockFinal product allSales)))
   = p_initialStock product \<and>
   p_stock (recalculateProduct allSales product) +
     p_quantitySold (recalculateProduct allSales product)
   = p_initialStock product"
  by (simp add: finalStock_calculateStockFinal recalculateProduct_def Let_def foldl_quantity)

text \<open>The identity at a product with 5 units and one matching sale of 8: the final stock
  is -3.\<close>

theorem reconcile_conservation_witness:
  "finalStock (calculateStockFinal (exampleProduct ''p1'' ''Cola'' ''Boissons'' 5 5)
      [exampleSale ''s1'' ''cola'' ''boissons'' 8 2]) = - 3
   \<and> sum_list (map s_quantity (validSales
        (calculateStockFinal (exampleProduct ''p1'' ''Cola'' ''Boissons'' 5 5)
           [exampleSale ''s1'' ''cola'' ''boissons'' 8 2]))) = 8"
proof -
  have sold: "sum_list (map s_quantity (validSales
        (calculateStockFinal (exampleProduct ''p1'' ''Cola'' ''Boissons'' 5 5)
           [exampleSale ''s1'' ''cola'' ''boissons'' 8 2]))) = 8"
    by code_simp
  have initial: "p_initialStock (exampleProduct ''p1'' ''Cola'' ''Boissons'' 5 5) = 5"
    by (simp add: exampleProduct_def)
  from reconcile_conservation [of "exampleProduct ''p1'' ''Cola'' ''Boissons'' 5 5"
      "[exampleSale ''s1'' ''cola'' ''boissons'' 8 2]"] sold initial
  show ?thesis
    by simp
qed

section \<open>Stock statistics: a negative final stock\<close>

text \<open>Whatever the reconciliation is, a product whose entry in the cache has a negative
  final stock is counted in low stock as soon as its minimum stock is not below that final
  stock.\<close>

lemma stockStatsStep_negative:
  assumes "cache (p_id product) = Some stockCalculation"
    and "finalStock stockCalculation < 0"
    and "finalStock stockCalculation \<le> p_minStock product"
  shows "lowStock (stockStatsStep cache acc product) = lowStock acc + 1"
    and "outOfStock (stockStatsStep cache acc product) = outOfStock acc"
  using assms by (simp_all add: stockStatsStep_def Let_def)

text \<open>
  Claim C5. The low stock count is to hold the products whose reconciled final stock is
  above 0 and at most the minimum stock. For a catalog of one product with 5 units, a
  minimum stock of 5 and one matching sale of 8, the final stock is -3, no product has a
  final stock between 1 and the minimum, and \<^verbatim>\<open>stockStats\<close> counts one product in low
  stock: its second test is \<^verbatim>\<open>finalStock <= product.minStock\<close> alone.
\<close>

theorem stockStats_counts_negative_as_low:
  "finalStock (calculateStockFinal (exampleProduct ''p1'' ''Cola'' ''Boissons'' 5 5)
      [exampleSale ''s1'' ''cola'' ''boissons'' 8 2]) = - 3
   \<and> lowStock (stockStats [exampleProduct ''p1'' ''Cola'' ''Boissons'' 5 5]
        [exampleSale ''s1'' ''cola'' ''boissons'' 8 2] 1) = 1
   \<and> outOfStock (stockStats [exampleProduct ''p1'' ''Cola'' ''Boissons'' 5 5]
        [exampleSale ''s1'' ''cola'' ''boissons'' 8 2] 1) = 0"
  by code_simp

section \<open>Order of the tiers of the matcher\<close>

lemma includesStr_refl: "includesStr a a"
  by (cases a) simp_all

lemma exactTier_partialTier: "exactTier n c p \<Longrightarrow> partialTier n c p"
  by (auto simp: exactTier_def partialTier_def Let_def includesStr_refl)

text \<open>
  Claim C3. The tiers are tried in the order exact, containment, fuzzy, and the first
  that finds a product ends the search: whenever some product of the catalog passes the
  containment test, the matcher returns a product of the catalog that passes it, and the
  result is the one of the first two searches alone (the exact search, or else
  the containment search), so the fuzzy search plays no part.
\<close>

theorem matcher_tier_order:
  assumes "\<exists>p \<in> set products.
     partialTier (normalizeProductName saleName) (trim (toLowerCase saleCategory)) p"
  shows "\<exists>m. findMatchingProduct saleName saleCategory products = Some m \<and>
     m \<in> set products \<and>
     partialTier (normalizeProductName saleName) (trim (toLowerCase saleCategory)) m \<and>
     findMatchingProduct saleName saleCategory products =
       (case find (exactTier (normalizeProductName saleName) (trim (toLowerCase saleCategory)))
               products of
          Some e \<Rightarrow> Some e
        | None \<Rightarrow> find (partialTier (normalizeProductName saleName)
                          (trim (toLowerCase saleCategory))) products)"
proof -
  let ?n = "normalizeProductName saleName" and ?c = "trim (toLowerCase saleCategory)"
  from assms obtain q where q: "find (partialTier ?n ?c) products = Some q"
    by (cases "find (partialTier ?n ?c) products") (auto simp: find_None_iff)
  then have qq: "q \<in> set products" "partialTier ?n ?c q"
    by (auto simp: find_Some_iff)
  show ?thesis
  proof (cases "find (exactTier ?n ?c) products")
    case None
    with q qq show ?thesis by (simp add: findMatchingProduct_def Let_def)
  next
    case (Some e)
    then have "e \<in> set products" "exactTier ?n ?c e"
      by (auto simp: find_Some_iff)
    with Some show ?thesis
      by (simp add: findMatchingProduct_def Let_def exactTier_partialTier)
  qed
qed

text \<open>A sale of \<^verbatim>\<open>Coca Cola\<close> against a catalog whose first product passes the fuzzy test
  only and whose second product passes the containment test: the second is returned.\<close>

theorem matcher_tier_order_witness:
  "fuzzyTier (normalizeProductName ''Coca Cola'') (trim (toLowerCase ''Boissons''))
     (exampleProduct ''p1'' ''Cola Zero Coca'' ''boissons'' 5 5) \<and>
   \<not> partialTier (normalizeProductName ''Coca Cola'') (trim (toLowerCase ''Boissons''))
     (exampleProduct ''p1'' ''Cola Zero Coca'' ''boissons'' 5 5) \<and>
   partialTier (normalizeProductName ''Coca Cola'') (trim (toLowerCase ''Boissons''))
     (exampleProduct ''p2'' ''Coca Cola Zero'' ''boissons'' 5 5) \<and>
   findMatchingProduct ''Coca Cola'' ''Boissons''
     [exampleProduct ''p1'' ''Cola Zero Coca'' ''boissons'' 5 5,
      exampleProduct ''p2'' ''Coca Cola Zero'' ''boissons'' 5 5]
   = Some (exampleProduct ''p2'' ''Coca Cola Zero'' ''boissons'' 5 5)"
proof -
  let ?n = "normalizeProductName ''Coca Cola''" and ?c = "trim (toLowerCase ''Boissons'')"
  let ?p1 = "exampleProduct ''p1'' ''Cola Zero Coca'' ''boissons'' 5 5"
  let ?p2 = "exampleProduct ''p2'' ''Coca Cola Zero'' ''boissons'' 5 5"
  have f1: "fuzzyTier ?n ?c ?p1" by code_simp
  have n1: "\<not> partialTier ?n ?c ?p1" by code_simp
  have c2: "partialTier ?n ?c ?p2" by code_simp
  have e1: "\<not> exactTier ?n ?c ?p1" by code_simp
  have e2: "\<not> exactTier ?n ?c ?p2" by code_simp
  have "\<exists>p \<in> set [?p1, ?p2]. partialTier ?n ?c p"
    using c2 by simp
  from matcher_tier_order [OF this] e1 e2 n1 c2
  have "findMatchingProduct ''Coca Cola'' ''Boissons'' [?p1, ?p2] = Some ?p2"
    by auto
  with f1 n1 c2 show ?thesis
    by simp
qed

section \<open>A sale name without main words\<close>

lemma ceil70_0: "ceil70 0 = 0"
  by (simp add: ceil70_def)

lemma fuzzyTier_no_words:
  "mainWords n = [] \<Longrightarrow> fuzzyTier n c p = (trim (toLowerCase (p_category p)) = c)"
  by (simp add: fuzzyTier_def Let_def ceil70_0 matchingWords_def)

text \<open>
  Claim C10. When the normalized name of the sale has no word longer than 2 characters
  and neither the exact nor the containment search finds a product, the threshold of the
  fuzzy test is 0 and the test holds for every product of the sale's category (compared
  in lower case, trimmed): the matcher returns the first product of the catalog with that
  category.
\<close>

theorem matcher_without_main_words:
  assumes "mainWords (normalizeProductName saleName) = []"
    and "find (exactTier (normalizeProductName saleName) (trim (toLowerCase saleCategory)))
           products = None"
    and "find (partialTier (normalizeProductName saleName) (trim (toLowerCase saleCategory)))
           products = None"
  shows "findMatchingProduct saleName saleCategory products =
     find (\<lambda>p. trim (toLowerCase (p_category p)) = trim (toLowerCase saleCategory)) products"
proof -
  have "fuzzyTier (normalizeProductName saleName) (trim (toLowerCase saleCategory)) =
        (\<lambda>p. trim (toLowerCase (p_category p)) = trim (toLowerCase saleCategory))"
    using assms(1) by (simp add: fun_eq_iff fuzzyTier_no_words)
  with assms(2,3) show ?thesis
    by (simp add: findMatchingProduct_def Let_def)
qed

text \<open>The sale \<^verbatim>\<open>ab\<close> of category \<^verbatim>\<open>Boissons\<close> is matched with the product \<^verbatim>\<open>xyz\<close>, which
  shares its category and nothing else.\<close>

theorem matcher_without_main_words_witness:
  "mainWords (normalizeProductName ''ab'') = [] \<and>
   findMatchingProduct ''ab'' ''Boissons''
     [exampleProduct ''p1'' ''tuv'' ''jeux'' 5 5, exampleProduct ''p2'' ''xyz'' ''boissons'' 5 5]
   = Some (exampleProduct ''p2'' ''xyz'' ''boissons'' 5 5)"
proof -
  let ?ps = "[exampleProduct ''p1'' ''tuv'' ''jeux'' 5 5,
              exampleProduct ''p2'' ''xyz'' ''boissons'' 5 5]"
  have w: "mainWords (normalizeProductName ''ab'') = []"
    by code_simp
  have e: "find (exactTier (normalizeProductName ''ab'') (trim (toLowerCase ''Boissons'')))
             ?ps = None"
    by code_simp
  have c: "find (partialTier (normalizeProductName ''ab'') (trim (toLowerCase ''Boissons'')))
             ?ps = None"
    by code_simp
  have r: "find (\<lambda>p. trim (toLowerCase (p_category p)) = trim (toLowerCase ''Boissons'')) ?ps
           = Some (exampleProduct ''p2'' ''xyz'' ''boissons'' 5 5)"
    by code_simp
  from matcher_without_main_words [OF w e c] r w show ?thesis
    by simp
qed

section \<open>Synchronisation when nothing is missing\<close>

lemma findMissingProducts_Nil:
  "(\<forall>(k, d) \<in> set m. findMatchingProduct (sd_name d) (sd_category d) products \<noteq> None)
   \<Longrightarrow> findMissingProducts m products = []"
  by (auto simp: findMissingProducts_def filter_empty_conv)

text \<open>
  Claim C9. When every group of sales is matched with a product of the catalog, the
  synchronisation returns normally (it throws nothing and writes nothing) with an empty
  list of created products and a summary that says that nothing was to be done: the text
  for a catalog that holds all the products of the sales, with their number, or, when
  there is no sale at all, the text that no sale is available.
\<close>

theorem sync_nothing_missing:
  assumes "\<forall>(productKey, salesData) \<in> set (buildSalesProductMap registerSales).
     findMatchingProduct (sd_name salesData) (sd_category salesData) products \<noteq> None"
  shows "autoSyncProductsFromSales commitOk newDocId registerSales products =
     (Inr \<lparr>created = [],
           summary = (if registerSales = [] then NoSalesData
                      else AllProductsExist (length (buildSalesProductMap registerSales)))\<rparr>,
      [])"
  using findMissingProducts_Nil [OF assms]
  by (simp add: autoSyncProductsFromSales_def Let_def)

text \<open>Three sales in two groups, both matched by the one product of the catalog.\<close>

theorem sync_nothing_missing_witness:
  "autoSyncProductsFromSales (\<lambda>k. False) (\<lambda>n. ''doc'')
     [exampleSale ''s1'' ''Coca Cola 100S'' ''Boissons'' 8 2,
      exampleSale ''s2'' '' coca cola'' ''boissons '' 3 2,
      exampleSale ''s3'' ''COCA cola'' ''boissons'' 4 2]
     [exampleProduct ''p1'' ''Coca'' ''Boissons'' 5 5]
   = (Inr \<lparr>created = [], summary = AllProductsExist 2\<rparr>, [])"
proof -
  let ?sales = "[exampleSale ''s1'' ''Coca Cola 100S'' ''Boissons'' 8 2,
      exampleSale ''s2'' '' coca cola'' ''boissons '' 3 2,
      exampleSale ''s3'' ''COCA cola'' ''boissons'' 4 2]"
  let ?ps = "[exampleProduct ''p1'' ''Coca'' ''Boissons'' 5 5]"
  have h: "\<forall>(productKey, salesData) \<in> set (buildSalesProductMap ?sales).
     findMatchingProduct (sd_name salesData) (sd_category salesData) ?ps \<noteq> None"
    by code_simp
  have n: "length (buildSalesProductMap ?sales) = 2"
    by code_simp
  from sync_nothing_missing [OF h, of "\<lambda>k. False" "\<lambda>n. ''doc''"] n show ?thesis
    by simp
qed

section \<open>The groups of the synchronisation\<close>

lemma buildSalesProductMap_snoc:
  "buildSalesProductMap (sales @ [s]) = addSale (buildSalesProductMap sales) s"
  by (simp add: buildSalesProductMap_def)

lemma map_of_addSale_other:
  "productKey s \<noteq> k \<Longrightarrow> map_of (addSale m s) k = map_of m k"
  by (simp add: addSale_def update_conv' split: option.split)

lemma map_of_addSale_new:
  "map_of m (productKey s) = None \<Longrightarrow>
   map_of (addSale m s) (productKey s) =
     Some \<lparr>sd_name = trim (s_product s), sd_category = trim (s_category s),
           totalQuantitySold = s_quantity s, averagePrice = s_price s,
           firstSaleDate = s_date s, lastSaleDate = s_date s, salesCount = 1\<rparr>"
  by (simp add: addSale_def update_conv')

lemma map_of_addSale_old:
  "map_of m (productKey s) = Some e \<Longrightarrow>
   \<exists>d. map_of (addSale m s) (productKey s) = Some d \<and>
     totalQuantitySold d = totalQuantitySold e + s_quantity s \<and>
     salesCount d = salesCount e + 1 \<and>
     averagePrice d =
       numDiv (numAdd (numMul (averagePrice e) (of_nat (salesCount e))) (s_price s))
              (of_nat (salesCount e + 1))"
  by (simp add: addSale_def update_conv')

lemma salesOfKey_snoc:
  "salesOfKey k (sales @ [s]) = salesOfKey k sales @ (if productKey s = k then [s] else [])"
  by (simp add: salesOfKey_def)

lemma distinct_addSale: "distinct (map fst m) \<Longrightarrow> distinct (map fst (addSale m s))"
  by (simp add: addSale_def distinct_update split: option.split)

lemma keys_addSale: "fst ` set (addSale m s) = insert (productKey s) (fst ` set m)"
  by (simp add: addSale_def dom_update split: option.split)

lemma distinct_buildSalesProductMap: "distinct (map fst (buildSalesProductMap sales))"
  by (induction sales rule: rev_induct)
     (simp_all add: buildSalesProductMap_snoc distinct_addSale, simp add: buildSalesProductMap_def)

lemma keys_buildSalesProductMap:
  "fst ` set (buildSalesProductMap sales) = productKey ` set sales"
  by (induction sales rule: rev_induct)
     (simp_all add: buildSalesProductMap_snoc keys_addSale, simp add: buildSalesProductMap_def)

lemma group_None:
  "map_of (buildSalesProductMap sales) k = None \<longleftrightarrow> salesOfKey k sales = []"
proof -
  have "map_of (buildSalesProductMap sales) k = None \<longleftrightarrow> k \<notin> fst ` set (buildSalesProductMap sales)"
    by (simp add: map_of_eq_None_iff)
  also have "\<dots> \<longleftrightarrow> k \<notin> productKey ` set sales"
    by (simp add: keys_buildSalesProductMap)
  also have "\<dots> \<longleftrightarrow> salesOfKey k sales = []"
    by (auto simp: salesOfKey_def filter_empty_conv)
  finally show ?thesis .
qed

lemma group_Some:
  "map_of (buildSalesProductMap sales) k = Some d \<Longrightarrow>
   salesCount d = length (salesOfKey k sales) \<and>
   totalQuantitySold d = sum_list (map s_quantity (salesOfKey k sales)) \<and>
   foldl averageStep (s_price (hd (salesOfKey k sales)), 1)
       (map s_price (tl (salesOfKey k sales)))
     = (averagePrice d, length (salesOfKey k sales))"
proof (induction sales arbitrary: d rule: rev_induct)
  case Nil
  then show ?case by (simp add: buildSalesProductMap_def)
next
  case (snoc s sales)
  show ?case
  proof (cases "productKey s = k")
    case False
    with snoc.prems have "map_of (buildSalesProductMap sales) k = Some d"
      by (simp add: buildSalesProductMap_snoc map_of_addSale_other)
    from snoc.IH [OF this] False show ?thesis
      by (simp add: salesOfKey_snoc)
  next
    case True
    show ?thesis
    proof (cases "map_of (buildSalesProductMap sales) k")
      case None
      then have "salesOfKey k sales = []" by (simp add: group_None)
      moreover from None True snoc.prems
      have "d = \<lparr>sd_name = trim (s_product s), sd_category = trim (s_category s),
           totalQuantitySold = s_quantity s, averagePrice = s_price s,
           firstSaleDate = s_date s, lastSaleDate = s_date s, salesCount = 1\<rparr>"
        using map_of_addSale_new [of "buildSalesProductMap sales" s]
        by (simp add: buildSalesProductMap_snoc)
      ultimately show ?thesis using True
        by (simp add: salesOfKey_snoc)
    next
      case (Some e)
      let ?G = "salesOfKey k sales"
      from Some have ne: "?G \<noteq> []"
        using group_None [of sales k] by simp
      from snoc.IH [OF Some] have e:
        "salesCount e = length ?G"
        "totalQuantitySold e = sum_list (map s_quantity ?G)"
        and run: "foldl averageStep (s_price (hd ?G), 1) (map s_price (tl ?G))
           = (averagePrice e, length ?G)"
        by simp_all
      from Some True snoc.prems map_of_addSale_old [of "buildSalesProductMap sales" s e]
      have d: "totalQuantitySold d = totalQuantitySold e + s_quantity s"
        "salesCount d = salesCount e + 1"
        and avg: "averagePrice d =
           numDiv (numAdd (numMul (averagePrice e) (of_nat (salesCount e))) (s_price s))
                  (of_nat (salesCount e + 1))"
        by (auto simp: buildSalesProductMap_snoc)
      have G: "salesOfKey k (sales @ [s]) = ?G @ [s]"
        using True by (simp add: salesOfKey_snoc)
      have "foldl averageStep (s_price (hd (?G @ [s])), 1) (map s_price (tl (?G @ [s])))
          = averageStep (foldl averageStep (s_price (hd ?G), 1) (map s_price (tl ?G)))
              (s_price s)"
        using ne by simp
      also have "\<dots> = averageStep (averagePrice e, length ?G) (s_price s)"
        by (simp only: run)
      also have "\<dots> = (averagePrice d, length (?G @ [s]))"
        by (simp add: averageStep_def avg e(1))
      finally have "foldl averageStep (s_price (hd (?G @ [s])), 1)
          (map s_price (tl (?G @ [s]))) = (averagePrice d, length (?G @ [s]))" .
      with e d show ?thesis
        unfolding G by simp
    qed
  qed
qed

lemma group_of_member:
  assumes "(k, d) \<in> set (buildSalesProductMap sales)"
  shows "salesOfKey k sales \<noteq> [] \<and>
     salesCount d = length (salesOfKey k sales) \<and>
     totalQuantitySold d = sum_list (map s_quantity (salesOfKey k sales)) \<and>
     averagePrice d = runningAverage (map s_price (salesOfKey k sales))"
proof -
  from assms have m: "map_of (buildSalesProductMap sales) k = Some d"
    by (simp add: distinct_buildSalesProductMap)
  then have ne: "salesOfKey k sales \<noteq> []"
    using group_None [of sales k] by simp
  then obtain g gs where G: "salesOfKey k sales = g # gs"
    by (cases "salesOfKey k sales") simp_all
  from group_Some [OF m] have
    "foldl averageStep (s_price g, 1) (map s_price gs) = (averagePrice d, length (g # gs))"
    unfolding G by simp
  then have "runningAverage (map s_price (g # gs)) = averagePrice d"
    by (simp add: runningAverage_def)
  with ne group_Some [OF m] show ?thesis
    unfolding G by simp
qed


text \<open>
  Claim C6, as the specification states it, fails: the key of a group is built from the
  name and the category of the sale with \<^verbatim>\<open>trim\<close> and \<^verbatim>\<open>toLowerCase\<close> only, and the name
  normalizer is not applied. The names \<^verbatim>\<open>Coca Cola 100S\<close> and \<^verbatim>\<open>Coca Cola\<close> have the same
  normalized form, and two sales with these names fall into two groups.
\<close>

theorem sync_groups_not_normalized:
  "normalizeProductName ''Coca Cola 100S'' = normalizeProductName ''Coca Cola'' \<and>
   map fst (buildSalesProductMap
     [exampleSale ''s1'' ''Coca Cola 100S'' ''Boissons'' 8 2,
      exampleSale ''s2'' ''Coca Cola'' ''Boissons'' 3 2])
   = [''coca cola 100s|boissons'', ''coca cola|boissons'']"
  by code_simp


text \<open>
  Claim C6, amended. The synchronisation groups the sales by the key string
  \<^verbatim>\<open>trim\<close> and \<^verbatim>\<open>toLowerCase\<close> of the name, a bar, \<^verbatim>\<open>trim\<close> and \<^verbatim>\<open>toLowerCase\<close> of the category:
  the map has one entry per key of the sales and no other, and the entry of a key counts
  the sales of that key and adds up their quantities. Sales whose names and categories
  differ by letter case or by white space at the ends have one key, hence one group.
\<close>

theorem sync_groups_by_key:
  "distinct (map fst (buildSalesProductMap registerSales)) \<and>
   fst ` set (buildSalesProductMap registerSales) = productKey ` set registerSales \<and>
   (\<forall>(k, d) \<in> set (buildSalesProductMap registerSales).
      salesCount d = length (salesOfKey k registerSales) \<and>
      totalQuantitySold d = sum_list (map s_quantity (salesOfKey k registerSales)))"
  using group_of_member [of _ _ registerSales]
  by (auto simp: distinct_buildSalesProductMap keys_buildSalesProductMap)


text \<open>Three sales: two of them differ by case and outer white space and share a group, the
  third has the size token and a group of its own.\<close>

theorem sync_groups_by_key_witness:
  "map (\<lambda>(k, d). (k, salesCount d, totalQuantitySold d)) (buildSalesProductMap
     [exampleSale ''s1'' ''Coca Cola 100S'' ''Boissons'' 8 2,
      exampleSale ''s2'' '' coca cola'' ''boissons '' 3 2,
      exampleSale ''s3'' ''COCA cola'' ''boissons'' 4 2])
   = [(''coca cola 100s|boissons'', 1, 8), (''coca cola|boissons'', 2, 7)] \<and>
   length (salesOfKey ''coca cola|boissons''
     [exampleSale ''s1'' ''Coca Cola 100S'' ''Boissons'' 8 2,
      exampleSale ''s2'' '' coca cola'' ''boissons '' 3 2,
      exampleSale ''s3'' ''COCA cola'' ''boissons'' 4 2]) = 2"
proof -
  let ?S = "[exampleSale ''s1'' ''Coca Cola 100S'' ''Boissons'' 8 2,
      exampleSale ''s2'' '' coca cola'' ''boissons '' 3 2,
      exampleSale ''s3'' ''COCA cola'' ''boissons'' 4 2]"
  have m: "map (\<lambda>(k, d). (k, salesCount d, totalQuantitySold d)) (buildSalesProductMap ?S)
     = [(''coca cola 100s|boissons'', 1, 8), (''coca cola|boissons'', 2, 7)]"
    by code_simp
  have "(''coca cola|boissons'', the (map_of (buildSalesProductMap ?S) ''coca cola|boissons''))
     \<in> set (buildSalesProductMap ?S)"
    by code_simp
  with sync_groups_by_key [of ?S]
  have "salesCount (the (map_of (buildSalesProductMap ?S) ''coca cola|boissons'')) =
        length (salesOfKey ''coca cola|boissons'' ?S)"
    by blast
  moreover have "salesCount (the (map_of (buildSalesProductMap ?S) ''coca cola|boissons'')) = 2"
    by code_simp
  ultimately show ?thesis using m by simp
qed

section \<open>The products made by the synchronisation\<close>

lemma newProducts_Nil: "newProducts ids n [] = []"
  by (simp add: newProducts_def)

lemma length_newProducts: "length (newProducts ids n xs) = length xs"
  by (simp add: newProducts_def)

lemma newProducts_append:
  "newProducts ids n (xs @ ys) = newProducts ids n xs @ newProducts ids (n + length xs) ys"
  by (simp add: newProducts_def enumerate_append_eq)

lemma nth_newProducts:
  "j < length xs \<Longrightarrow> newProducts ids n xs ! j = newProduct (ids (n + j)) (snd (xs ! j))"
  by (simp add: newProducts_def nth_enumerate_eq split_beta)

lemma newProducts_split:
  "newProducts ids n (drop i xs) =
     newProducts ids n (take b (drop i xs)) @
     newProducts ids (n + length (newProducts ids n (take b (drop i xs)))) (drop (i + b) xs)"
proof -
  have "drop (i + b) xs = drop b (drop i xs)"
    by (simp add: add.commute)
  then have "drop i xs = take b (drop i xs) @ drop (i + b) xs"
    by (simp only: append_take_drop_id)
  then have "newProducts ids n (drop i xs) =
       newProducts ids n (take b (drop i xs) @ drop (i + b) xs)"
    by simp
  then show ?thesis
    by (simp only: newProducts_append length_newProducts)
qed

lemma syncBatches_unfold:
  "syncBatches ok ids i missing createdProducts committed =
     (if i < length missing then
        if ok (i div BATCH_SIZE)
        then syncBatches ok ids (i + BATCH_SIZE) missing
               (createdProducts @ newProducts ids (length createdProducts)
                                    (take BATCH_SIZE (drop i missing)))
               (committed @ newProducts ids (length createdProducts)
                                    (take BATCH_SIZE (drop i missing)))
        else (Inl SyncError, committed)
      else (Inr createdProducts, committed))"
  by (subst syncBatches.simps) (simp add: Let_def)

lemma syncBatches_Inr:
  "syncBatches ok ids i missing createdProducts committed = (Inr c, w) \<Longrightarrow>
   c = createdProducts @ newProducts ids (length createdProducts) (drop i missing) \<and>
   w = committed @ newProducts ids (length createdProducts) (drop i missing)"
proof (induction ok ids i missing createdProducts committed rule: syncBatches.induct)
  case (1 ok ids i missing createdProducts committed)
  show ?case
  proof (cases "i < length missing")
    case False
    with "1.prems" show ?thesis
      by (subst (asm) syncBatches_unfold) (simp add: newProducts_Nil)
  next
    case True
    let ?written = "newProducts ids (length createdProducts) (take BATCH_SIZE (drop i missing))"
    from True "1.prems" have ok: "ok (i div BATCH_SIZE)"
      by (subst (asm) syncBatches_unfold) (simp split: if_splits)
    with True "1.prems" have
      "syncBatches ok ids (i + BATCH_SIZE) missing (createdProducts @ ?written)
         (committed @ ?written) = (Inr c, w)"
      by (subst (asm) syncBatches_unfold) simp
    from "1.IH" [OF True refl refl ok this]
    show ?thesis
      by (simp add: newProducts_split [of ids "length createdProducts" i missing BATCH_SIZE])
  qed
qed

lemma syncBatches_Inl:
  "syncBatches ok ids i missing createdProducts committed = (Inl e, w) \<Longrightarrow>
   \<exists>t. i + t * BATCH_SIZE < length missing \<and> \<not> ok (i div BATCH_SIZE + t) \<and>
       (\<forall>u<t. ok (i div BATCH_SIZE + u)) \<and>
       w = committed @ newProducts ids (length createdProducts)
                         (take (t * BATCH_SIZE) (drop i missing))"
proof (induction ok ids i missing createdProducts committed rule: syncBatches.induct)
  case (1 ok ids i missing createdProducts committed)
  show ?case
  proof (cases "i < length missing")
    case False
    with "1.prems" show ?thesis
      by (subst (asm) syncBatches_unfold) simp
  next
    case True
    let ?written = "newProducts ids (length createdProducts) (take BATCH_SIZE (drop i missing))"
    show ?thesis
    proof (cases "ok (i div BATCH_SIZE)")
      case False
      from True False "1.prems" have "w = committed"
        by (subst (asm) syncBatches_unfold) simp
      with True False show ?thesis
        by (intro exI [of _ 0]) (simp add: newProducts_Nil)
    next
      case ok: True
      with True "1.prems" have
        "syncBatches ok ids (i + BATCH_SIZE) missing (createdProducts @ ?written)
           (committed @ ?written) = (Inl e, w)"
        by (subst (asm) syncBatches_unfold) simp
      from "1.IH" [OF True refl refl ok this]
      obtain t where t: "i + BATCH_SIZE + t * BATCH_SIZE < length missing"
        "\<not> ok ((i + BATCH_SIZE) div BATCH_SIZE + t)"
        "\<forall>u<t. ok ((i + BATCH_SIZE) div BATCH_SIZE + u)"
        "w = (committed @ ?written) @
             newProducts ids (length (createdProducts @ ?written))
               (take (t * BATCH_SIZE) (drop (i + BATCH_SIZE) missing))"
        by blast
      have d: "(i + BATCH_SIZE) div BATCH_SIZE = i div BATCH_SIZE + 1"
        by (simp add: BATCH_SIZE_def)
      have tk: "take (Suc t * BATCH_SIZE) (drop i missing) =
                take BATCH_SIZE (drop i missing) @
                take (t * BATCH_SIZE) (drop (i + BATCH_SIZE) missing)"
        by (simp add: take_add add.commute)
      have u: "\<forall>u<Suc t. ok (i div BATCH_SIZE + u)"
      proof (intro allI impI)
        fix u assume "u < Suc t"
        show "ok (i div BATCH_SIZE + u)"
        proof (cases u)
          case 0
          with ok show ?thesis by simp
        next
          case (Suc v)
          with \<open>u < Suc t\<close> t(3) d show ?thesis by simp
        qed
      qed
      from t d have "i + Suc t * BATCH_SIZE < length missing"
        "\<not> ok (i div BATCH_SIZE + Suc t)"
        by (simp_all add: add.assoc add.commute)
      moreover have "w = committed @ newProducts ids (length createdProducts)
                         (take (Suc t * BATCH_SIZE) (drop i missing))"
        unfolding tk newProducts_append using t(4) by (simp add: length_newProducts)
      ultimately show ?thesis using u by blast
    qed
  qed
qed

lemma syncBatches_fails:
  "i + t * BATCH_SIZE < length missing \<Longrightarrow> \<not> ok (i div BATCH_SIZE + t) \<Longrightarrow>
   fst (syncBatches ok ids i missing createdProducts committed) = Inl SyncError"
proof (induction t arbitrary: i createdProducts committed)
  case 0
  then show ?case
    by (subst syncBatches_unfold) simp
next
  case (Suc t)
  have d: "(i + BATCH_SIZE) div BATCH_SIZE = i div BATCH_SIZE + 1"
    by (simp add: BATCH_SIZE_def)
  from Suc.prems have lt: "i < length missing" by simp
  show ?case
  proof (cases "ok (i div BATCH_SIZE)")
    case False
    with lt show ?thesis by (subst syncBatches_unfold) simp
  next
    case True
    from Suc.prems d have "i + BATCH_SIZE + t * BATCH_SIZE < length missing"
      "\<not> ok ((i + BATCH_SIZE) div BATCH_SIZE + t)"
      by (simp_all add: add.assoc add.commute)
    from Suc.IH [OF this] True lt show ?thesis
      by (subst syncBatches_unfold) simp
  qed
qed

lemma autoSync_Inr_created:
  assumes "autoSyncProductsFromSales commitOk newDocId registerSales products = (Inr result, committed)"
  shows "created result =
     newProducts newDocId 0 (findMissingProducts (buildSalesProductMap registerSales) products)
   \<and> committed = created result"
proof (cases "registerSales = []")
  case True
  with assms show ?thesis
    by (auto simp: autoSyncProductsFromSales_def buildSalesProductMap_def
        findMissingProducts_def newProducts_Nil)
next
  case False
  let ?missing = "findMissingProducts (buildSalesProductMap registerSales) products"
  show ?thesis
  proof (cases "?missing = []")
    case True
    with False assms show ?thesis
      by (auto simp: autoSyncProductsFromSales_def Let_def newProducts_Nil)
  next
    case ne: False
    obtain r w where rw: "syncBatches commitOk newDocId 0 ?missing [] [] = (r, w)"
      by (cases "syncBatches commitOk newDocId 0 ?missing [] []")
    with False ne assms obtain c where c: "r = Inr c" "result = \<lparr>created = c,
        summary = SyncReport c (length (buildSalesProductMap registerSales))\<rparr>" "committed = w"
      by (cases r) (auto simp: autoSyncProductsFromSales_def Let_def)
    from syncBatches_Inr [OF rw [unfolded c(1)]] c show ?thesis
      by simp
  qed
qed


text \<open>
  Claim C7, as the specification states it, fails for the price. Two sales of one product
  at the prices 1 and 1.01: the mean of the two prices is above 1.005 and rounds to 1.01,
  but the running average computed in doubles lies below 1.005, its product with 100 is
  100.49999999999999, and the product is created with the price 1. One sale at the price
  0.045: the double of 0.045 lies below 0.045, nearer to 0.04 than to 0.05, but its
  product with 100 is the double 4.5 and the product is created with the price 0.05.
\<close>

theorem sync_price_not_rounded_mean:
  "\<not> isl (fst (autoSyncProductsFromSales everyCommit exampleDocId
      [exampleSale ''s1'' ''Jeu'' ''Jeux'' 1 1,
       exampleSale ''s2'' ''Jeu'' ''Jeux'' 1 (toDouble (101 / 100))] [])) \<and>
   map p_price (created (projr (fst (autoSyncProductsFromSales everyCommit exampleDocId
      [exampleSale ''s1'' ''Jeu'' ''Jeux'' 1 1,
       exampleSale ''s2'' ''Jeu'' ''Jeux'' 1 (toDouble (101 / 100))] [])))) = [1] \<and>
   1005 / 1000 < (1 + toDouble (101 / 100)) / 2 \<and>
   \<not> isl (fst (autoSyncProductsFromSales everyCommit exampleDocId
      [exampleSale ''s1'' ''Jeu'' ''Jeux'' 1 (toDouble (45 / 1000))] [])) \<and>
   map p_price (created (projr (fst (autoSyncProductsFromSales everyCommit exampleDocId
      [exampleSale ''s1'' ''Jeu'' ''Jeux'' 1 (toDouble (45 / 1000))] []))))
     = [toDouble (5 / 100)] \<and>
   toDouble (45 / 1000) < 45 / 1000"
  by code_simp

text \<open>
  Claim C7, amended. When the synchronisation returns, it has made one product per missing
  group, in the order of the groups. With \<open>group\<close> the sales of the group's key, the
  product has the initial stock \<open>max (total quantity) 10\<close>, the stock 0, the minimum stock
  \<open>max \<lceil>total quantity / 10\<rceil> 5\<close> and the price
  \<^verbatim>\<open>Math.round(average * 100) / 100\<close> computed in doubles, where \<open>average\<close> is the running
  average of the prices of the group in the order of the sales: the incremental mean
  \<open>(average * count + price) / (count + 1)\<close>, weighted by the number of sales folded in
  so far and not by their quantities, computed in doubles as well.
\<close>

theorem sync_created_fields:
  assumes "autoSyncProductsFromSales commitOk newDocId registerSales products
           = (Inr result, committed)"
  shows "length (created result) =
           length (findMissingProducts (buildSalesProductMap registerSales) products) \<and>
     (\<forall>j < length (created result).
        let (productKey, salesData) =
              findMissingProducts (buildSalesProductMap registerSales) products ! j;
            product = created result ! j;
            group = salesOfKey productKey registerSales
        in group \<noteq> [] \<and>
           p_initialStock product = max (sum_list (map s_quantity group)) 10 \<and>
           p_stock product = 0 \<and>
           p_minStock product = max \<lceil>(of_int (sum_list (map s_quantity group)) :: rat) / 10\<rceil> 5 \<and>
           p_price product =
             numDiv (of_int (mathRound (numMul (runningAverage (map s_price group)) 100))) 100)"
proof -
  let ?missing = "findMissingProducts (buildSalesProductMap registerSales) products"
  from autoSync_Inr_created [OF assms]
  have c: "created result = newProducts newDocId 0 ?missing" by simp
  then have len: "length (created result) = length ?missing"
    by (simp add: length_newProducts)
  have "\<forall>j < length ?missing.
        let (productKey, salesData) =
              ?missing ! j;
            product = created result ! j;
            group = salesOfKey productKey registerSales
        in group \<noteq> [] \<and>
           p_initialStock product = max (sum_list (map s_quantity group)) 10 \<and>
           p_stock product = 0 \<and>
           p_minStock product = max \<lceil>(of_int (sum_list (map s_quantity group)) :: rat) / 10\<rceil> 5 \<and>
           p_price product =
             numDiv (of_int (mathRound (numMul (runningAverage (map s_price group)) 100))) 100"
  proof (intro allI impI)
    fix j assume j: "j < length ?missing"
    obtain k d where kd: "?missing ! j = (k, d)" by (cases "?missing ! j")
    from j have "?missing ! j \<in> set ?missing" by simp
    with kd have "(k, d) \<in> set (buildSalesProductMap registerSales)"
      by (simp add: findMissingProducts_def)
    from group_of_member [OF this] have g:
      "salesOfKey k registerSales \<noteq> []"
      "totalQuantitySold d = sum_list (map s_quantity (salesOfKey k registerSales))"
      "averagePrice d = runningAverage (map s_price (salesOfKey k registerSales))"
      by simp_all
    have p: "created result ! j = newProduct (newDocId j) d"
      using j kd by (simp add: c nth_newProducts)
    show "let (productKey, salesData) =
              ?missing ! j;
            product = created result ! j;
            group = salesOfKey productKey registerSales
        in group \<noteq> [] \<and>
           p_initialStock product = max (sum_list (map s_quantity group)) 10 \<and>
           p_stock product = 0 \<and>
           p_minStock product = max \<lceil>(of_int (sum_list (map s_quantity group)) :: rat) / 10\<rceil> 5 \<and>
           p_price product =
             numDiv (of_int (mathRound (numMul (runningAverage (map s_price group)) 100))) 100"
      unfolding kd p using g by (simp add: newProduct_def Let_def)
  qed
  with len show ?thesis by simp
qed

text \<open>Three sales of one product missing from the catalog: 61 units sold at the prices 1,
  1 and 2. The running average is the double of 4/3 and the price the double of 1.33.\<close>

theorem sync_created_fields_witness:
  "\<exists>result committed.
     autoSyncProductsFromSales (\<lambda>k. True) exampleDocId
       [exampleSale ''s1'' ''Puzzle 500'' ''Jeux'' 40 1,
        exampleSale ''s2'' ''puzzle 500'' ''jeux'' 20 1,
        exampleSale ''s3'' ''PUZZLE 500 '' ''Jeux'' 1 2]
       [exampleProduct ''p1'' ''Cola'' ''Boissons'' 5 5] = (Inr result, committed) \<and>
     length (created result) = 1 \<and>
     p_initialStock (created result ! 0) = 61 \<and>
     p_stock (created result ! 0) = 0 \<and>
     p_minStock (created result ! 0) = 7 \<and>
     p_price (created result ! 0) = toDouble (133 / 100)"
proof -
  let ?S = "[exampleSale ''s1'' ''Puzzle 500'' ''Jeux'' 40 1,
        exampleSale ''s2'' ''puzzle 500'' ''jeux'' 20 1,
        exampleSale ''s3'' ''PUZZLE 500 '' ''Jeux'' 1 2]"
  let ?P = "[exampleProduct ''p1'' ''Cola'' ''Boissons'' 5 5]"
  let ?r = "autoSyncProductsFromSales (\<lambda>k. True) exampleDocId ?S ?P"
  have "\<not> isl (fst ?r)" by code_simp
  then obtain result committed where r: "?r = (Inr result, committed)"
    by (cases ?r; cases "fst ?r") auto
  have keys: "map fst (findMissingProducts (buildSalesProductMap ?S) ?P) = [''puzzle 500|jeux'']"
    by code_simp
  then obtain d where m: "findMissingProducts (buildSalesProductMap ?S) ?P
      = [(''puzzle 500|jeux'', d)]"
    by (cases "findMissingProducts (buildSalesProductMap ?S) ?P") auto
  have q: "sum_list (map s_quantity (salesOfKey ''puzzle 500|jeux'' ?S)) = 61"
    by code_simp
  have a: "runningAverage (map s_price (salesOfKey ''puzzle 500|jeux'' ?S)) = toDouble (4 / 3)"
    by code_simp
  have p: "numDiv (of_int (mathRound (numMul (toDouble (4 / 3)) 100))) 100
           = toDouble (133 / 100)"
    by code_simp
  have c: "\<lceil>(61::rat) / 10\<rceil> = 7"
    by code_simp
  note t = sync_created_fields [OF r, unfolded m]
  from t have len: "length (created result) = 1"
    by simp
  from conjunct2 [OF t, rule_format, of 0] len have
    "p_initialStock (created result ! 0) = 61 \<and>
     p_stock (created result ! 0) = 0 \<and>
     p_minStock (created result ! 0) = 7 \<and>
     p_price (created result ! 0) = toDouble (133 / 100)"
    by (simp add: Let_def q a p c)
  with len have
    "length (created result) = 1 \<and>
     p_initialStock (created result ! 0) = 61 \<and>
     p_stock (created result ! 0) = 0 \<and>
     p_minStock (created result ! 0) = 7 \<and>
     p_price (created result ! 0) = toDouble (133 / 100)"
    by simp
  with r show ?thesis by blast
qed

section \<open>Failure of a commit\<close>

lemma findMissingProducts_empty_map: "findMissingProducts [] products = []"
  by (simp add: findMissingProducts_def)

lemma autoSync_Inl:
  assumes "autoSyncProductsFromSales commitOk newDocId registerSales products = (Inl e, committed)"
  shows "syncBatches commitOk newDocId 0
           (findMissingProducts (buildSalesProductMap registerSales) products) [] []
         = (Inl e, committed)"
proof -
  let ?missing = "findMissingProducts (buildSalesProductMap registerSales) products"
  from assms have ne: "registerSales \<noteq> []" "?missing \<noteq> []"
    by (auto simp: autoSyncProductsFromSales_def Let_def split: if_splits)
  obtain r w where rw: "syncBatches commitOk newDocId 0 ?missing [] [] = (r, w)"
    by (cases "syncBatches commitOk newDocId 0 ?missing [] []")
  with ne assms show ?thesis
    by (cases r) (auto simp: autoSyncProductsFromSales_def Let_def)
qed

lemma autoSync_fails:
  assumes "k * BATCH_SIZE < length (findMissingProducts (buildSalesProductMap registerSales) products)"
    and "\<not> commitOk k"
  shows "fst (autoSyncProductsFromSales commitOk newDocId registerSales products) = Inl SyncError"
proof -
  let ?missing = "findMissingProducts (buildSalesProductMap registerSales) products"
  from assms(1) have ne: "?missing \<noteq> []" by auto
  then have ne': "registerSales \<noteq> []"
    by (auto simp: buildSalesProductMap_def findMissingProducts_def)
  from syncBatches_fails [of 0 k ?missing commitOk newDocId "[]" "[]"] assms
  have "fst (syncBatches commitOk newDocId 0 ?missing [] []) = Inl SyncError"
    by simp
  with ne ne' show ?thesis
    by (cases "syncBatches commitOk newDocId 0 ?missing [] []")
       (auto simp: autoSyncProductsFromSales_def Let_def)
qed

lemma dropWhile_replicate: "\<not> P x \<Longrightarrow> dropWhile P (replicate k x) = replicate k x"
  by (cases k) simp_all

lemma trim_replicate: "\<not> isSpace x \<Longrightarrow> trim (replicate k x) = replicate k x"
  by (simp add: trim_def dropWhile_replicate)

lemma productKey_exampleSale:
  "productKey (exampleSale i (replicate k CHR ''x'') ''jeux'' q p) = replicate k CHR ''x'' @ ''|jeux''"
proof -
  have "\<not> isSpace CHR ''x''" by (simp add: isSpace_def)
  then have "trim (replicate k CHR ''x'') = replicate k CHR ''x''"
    by (rule trim_replicate)
  moreover have "toLowerCase (replicate k CHR ''x'') = replicate k CHR ''x''"
    by (simp add: toLowerCase_def toLowerChar_def)
  moreover have "toLowerCase (trim ''jeux'') = ''jeux''"
    by code_simp
  ultimately show ?thesis
    by (simp add: productKey_def exampleSale_def)
qed

lemma keys_exampleSales:
  "productKey ` set (exampleSales n) = (\<lambda>k. replicate k CHR ''x'' @ ''|jeux'') ` {1..n}"
proof (induction n)
  case 0
  then show ?case by simp
next
  case (Suc n)
  have "{1..Suc n} = insert (Suc n) {1..n}" by auto
  with Suc show ?case
    by (simp add: productKey_exampleSale del: replicate_Suc)
qed

lemma length_buildSalesProductMap:
  "length (buildSalesProductMap sales) = card (productKey ` set sales)"
proof -
  have "length (buildSalesProductMap sales) = length (map fst (buildSalesProductMap sales))"
    by simp
  also have "\<dots> = card (set (map fst (buildSalesProductMap sales)))"
    by (rule distinct_card [symmetric]) (rule distinct_buildSalesProductMap)
  also have "\<dots> = card (productKey ` set sales)"
    by (simp add: keys_buildSalesProductMap)
  finally show ?thesis .
qed

lemma length_exampleGroups: "length (buildSalesProductMap (exampleSales n)) = n"
proof -
  have "inj_on (\<lambda>k. replicate k CHR ''x'' @ ''|jeux'') {1..n}"
    by (rule inj_onI) (drule arg_cong [where f = length], simp)
  then show ?thesis
    by (simp add: length_buildSalesProductMap keys_exampleSales card_image)
qed

lemma findMissingProducts_empty_catalog: "findMissingProducts m [] = m"
  by (simp add: findMissingProducts_def findMatchingProduct_def Let_def split_beta)

lemma firstCommitOnly_first_failure:
  "\<not> firstCommitOnly k \<Longrightarrow> \<forall>j<k. firstCommitOnly j \<Longrightarrow> k = 1"
  by (cases k) (auto simp: firstCommitOnly_def)


text \<open>
  Claim C8, as the specification states it, fails. 201 sales of 201 products against an
  empty catalog give 201 missing groups, hence two batches. The store accepts the first
  batch and refuses the second: the synchronisation throws its error and returns no list
  of created products, while the 200 products of the first batch are in the store.
\<close>

theorem sync_failure_hides_commit:
  "fst (autoSyncProductsFromSales firstCommitOnly exampleDocId (exampleSales 201) [])
     = Inl SyncError \<and>
   length (snd (autoSyncProductsFromSales firstCommitOnly exampleDocId (exampleSales 201) []))
     = 200"
proof -
  let ?r = "autoSyncProductsFromSales firstCommitOnly exampleDocId (exampleSales 201) []"
  let ?missing = "findMissingProducts (buildSalesProductMap (exampleSales 201)) []"
  have len: "length ?missing = 201"
    by (simp only: findMissingProducts_empty_catalog length_exampleGroups)
  have "1 * BATCH_SIZE < length ?missing" "\<not> firstCommitOnly 1"
    by (simp_all only: len) (simp_all add: BATCH_SIZE_def firstCommitOnly_def)
  then have err: "fst ?r = Inl SyncError"
    by (rule autoSync_fails)
  then obtain w where r: "?r = (Inl SyncError, w)"
    by (cases ?r) auto
  from syncBatches_Inl [OF autoSync_Inl [OF r]]
  obtain t where t: "\<not> firstCommitOnly t" "\<forall>u<t. firstCommitOnly u"
    "w = newProducts exampleDocId 0 (take (t * BATCH_SIZE) ?missing)"
    by (auto simp: BATCH_SIZE_def)
  from firstCommitOnly_first_failure [OF t(1,2)] t(3)
  have "length w = 200"
    by (simp only: length_newProducts length_take len) (simp add: BATCH_SIZE_def)
  with err r show ?thesis
    by simp
qed


text \<open>
  Claim C8, amended. The synchronisation returns a list of created products only when
  the commit of every batch succeeded, and then the list is exactly what the store
  received. When the commit of a batch fails, the synchronisation throws its error
  instead of returning: no list of created products is reported, and the store keeps the
  products of the batches before the first failing one.
\<close>

theorem sync_commit_report:
  "(let missingProducts = findMissingProducts (buildSalesProductMap registerSales) products
    in case autoSyncProductsFromSales commitOk newDocId registerSales products of
         (Inr result, committed) \<Rightarrow>
            committed = created result \<and>
            (\<forall>k. k * BATCH_SIZE < length missingProducts \<longrightarrow> commitOk k)
       | (Inl e, committed) \<Rightarrow>
            (\<exists>k. k * BATCH_SIZE < length missingProducts \<and> \<not> commitOk k \<and>
                 (\<forall>j<k. commitOk j) \<and>
                 committed = newProducts newDocId 0 (take (k * BATCH_SIZE) missingProducts)))"
proof -
  let ?missing = "findMissingProducts (buildSalesProductMap registerSales) products"
  obtain r w where rw: "autoSyncProductsFromSales commitOk newDocId registerSales products = (r, w)"
    by (cases "autoSyncProductsFromSales commitOk newDocId registerSales products")
  show ?thesis
  proof (cases r)
    case (Inr result)
    from autoSync_Inr_created [OF rw [unfolded Inr]] have "w = created result"
      by simp
    moreover have "commitOk k" if "k * BATCH_SIZE < length ?missing" for k
    proof (rule ccontr)
      assume "\<not> commitOk k"
      from autoSync_fails [of k registerSales products commitOk newDocId] that this rw Inr
      show False
        by simp
    qed
    ultimately show ?thesis
      using rw Inr by (simp add: Let_def)
  next
    case (Inl e)
    from syncBatches_Inl [OF autoSync_Inl [OF rw [unfolded Inl]]]
    obtain t where "t * BATCH_SIZE < length ?missing" "\<not> commitOk t" "\<forall>u<t. commitOk u"
      "w = newProducts newDocId 0 (take (t * BATCH_SIZE) ?missing)"
      by (auto simp: BATCH_SIZE_def)
    then show ?thesis
      using rw Inl by (auto simp: Let_def)
  qed
qed



text \<open>The 201 sales again, with the store that refuses the second batch: the error, and
  the products of the first 200 groups in the store.\<close>

theorem sync_commit_report_witness:
  "\<exists>committed.
     autoSyncProductsFromSales firstCommitOnly exampleDocId (exampleSales 201) []
       = (Inl SyncError, committed) \<and>
     committed = newProducts exampleDocId 0 (take 200 (buildSalesProductMap (exampleSales 201)))"
proof -
  let ?r = "autoSyncProductsFromSales firstCommitOnly exampleDocId (exampleSales 201) []"
  let ?missing = "findMissingProducts (buildSalesProductMap (exampleSales 201)) []"
  have len: "length ?missing = 201"
    by (simp only: findMissingProducts_empty_catalog length_exampleGroups)
  have one: "1 * BATCH_SIZE < length ?missing" "\<not> firstCommitOnly 1"
    by (simp_all only: len) (simp_all add: BATCH_SIZE_def firstCommitOnly_def)
  note report = sync_commit_report [of "exampleSales 201" "[]" firstCommitOnly exampleDocId]
  obtain r w where rw: "?r = (r, w)" by (cases ?r)
  show ?thesis
  proof (cases r)
    case (Inr result)
    with report rw have "\<forall>k. k * BATCH_SIZE < length ?missing \<longrightarrow> firstCommitOnly k"
      by (simp add: Let_def)
    with one show ?thesis by blast
  next
    case (Inl e)
    with report rw obtain k where k: "\<not> firstCommitOnly k" "\<forall>j<k. firstCommitOnly j"
      "w = newProducts exampleDocId 0 (take (k * BATCH_SIZE) ?missing)"
      by (auto simp: Let_def)
    from firstCommitOnly_first_failure [OF k(1,2)] k(3)
    have "w = newProducts exampleDocId 0 (take 200 (buildSalesProductMap (exampleSales 201)))"
      by (simp add: BATCH_SIZE_def findMissingProducts_empty_catalog)
    moreover have "e = SyncError" by (cases e)
    ultimately show ?thesis using rw Inl by simp
  qed
qed

section \<open>The fuzzy test\<close>

lemma isSpace_space: "isSpace CHR '' ''"
  by (simp add: isSpace_def)

lemma splitStr_splitWhen:
  "\<forall>c \<in> set s. isSpace c \<longrightarrow> c = CHR '' '' \<Longrightarrow> splitStr CHR '' '' s = splitWhen isSpace s"
proof (induction s)
  case Nil
  then show ?case by simp
next
  case (Cons a s)
  then have IH: "splitStr CHR '' '' s = splitWhen isSpace s" by simp
  from Cons.prems have a: "isSpace a \<longleftrightarrow> a = CHR '' ''"
    using isSpace_space by auto
  show ?case
    by (simp only: splitStr.simps splitWhen.simps IH a)
qed

lemma set_trim: "set (trim s) \<subseteq> set s"
proof -
  have "set (trim s) \<subseteq> set (dropWhile isSpace s)"
    unfolding trim_def using set_dropWhileD [of _ isSpace "rev (dropWhile isSpace s)"] by auto
  also have "\<dots> \<subseteq> set s"
    using set_dropWhileD [of _ isSpace s] by auto
  finally show ?thesis .
qed

lemma set_removeSizeTokens: "set (removeSizeTokens p s) \<subseteq> set s"
proof (induction p s rule: removeSizeTokens.induct)
  case (1 prevWord)
  then show ?case by simp
next
  case (2 prevWord c cs)
  show ?case
  proof (cases "\<not> prevWord \<and> 0 < matchSizeToken (c # cs)")
    case True
    with 2 have "set (removeSizeTokens True (drop (matchSizeToken (c # cs)) (c # cs)))
        \<subseteq> set (drop (matchSizeToken (c # cs)) (c # cs))"
      by simp
    also have "\<dots> \<subseteq> set (c # cs)"
      by (rule set_drop_subset)
    finally show ?thesis using True by simp
  next
    case False
    with 2 show ?thesis by auto
  qed
qed

lemma spaces_replaceSpaces:
  "c \<in> set (replaceSpaces s) \<Longrightarrow> isSpace c \<Longrightarrow> c = CHR '' ''"
proof (induction s rule: replaceSpaces.induct)
  case 1
  then show ?case by simp
next
  case (2 d ds)
  then show ?case by (auto split: if_splits)
qed

lemma spaces_normalizeProductName:
  assumes "c \<in> set (normalizeProductName x)" and "isSpace c"
  shows "c = CHR '' ''"
proof -
  from assms(1) have "c \<in> set (removeSpecial (replaceSpaces (trim (toLowerCase x))))"
    unfolding normalizeProductName_def using set_trim set_removeSizeTokens by blast
  then have "c \<in> set (replaceSpaces (trim (toLowerCase x)))"
    by (simp add: removeSpecial_def)
  then show ?thesis using assms(2) by (rule spaces_replaceSpaces)
qed

lemma mainWords_keptTokens:
  "mainWords (normalizeProductName x) = keptTokens (normalizeProductName x)"
  using spaces_normalizeProductName [of _ x]
  by (simp add: mainWords_def keptTokens_def splitStr_splitWhen)


text \<open>
  Claim C4. For a sale and a product whose categories are equal once in lower case and
  trimmed, the fuzzy test of the matcher holds exactly when the test worded by the
  specification holds: with the tokens longer than 2 characters of both normalized names,
  at least \<open>\<lceil>0.7 \<times> n\<rceil>\<close> of the \<open>n\<close> tokens of the sale each contain, or are contained in,
  some token of the product. The source cuts at single spaces; a normalized name has no
  other white space.
\<close>

theorem fuzzyTier_meets_spec:
  assumes "trim (toLowerCase (p_category product)) = trim (toLowerCase saleCategory)"
  shows "fuzzyTier (normalizeProductName saleName) (trim (toLowerCase saleCategory)) product
     \<longleftrightarrow> specFuzzyMatch saleName (p_name product)"
  using assms
  by (simp add: fuzzyTier_def specFuzzyMatch_def Let_def matchingWords_def mainWords_keptTokens)

text \<open>Four tokens in the sale, of which three are found in the product (\<^verbatim>\<open>puzzle\<close> inside
  \<^verbatim>\<open>puzzles\<close>): the threshold is 3 and the test holds.\<close>

theorem fuzzyTier_meets_spec_witness:
  "trim (toLowerCase (p_category (exampleProduct ''p1'' ''Puzzles Disney pieces'' ''jeux'' 5 5)))
     = trim (toLowerCase '' Jeux'') \<and>
   fuzzyTier (normalizeProductName ''Puzzle Disney 1000 pieces'') (trim (toLowerCase '' Jeux''))
     (exampleProduct ''p1'' ''Puzzles Disney pieces'' ''jeux'' 5 5) \<and>
   specFuzzyMatch ''Puzzle Disney 1000 pieces'' ''Puzzles Disney pieces'' \<and>
   keptTokens (normalizeProductName ''Puzzle Disney 1000 pieces'')
     = [''puzzle'', ''disney'', ''1000'', ''pieces'']"
proof -
  let ?p = "exampleProduct ''p1'' ''Puzzles Disney pieces'' ''jeux'' 5 5"
  have c: "trim (toLowerCase (p_category ?p)) = trim (toLowerCase '' Jeux'')"
    by code_simp
  have f: "fuzzyTier (normalizeProductName ''Puzzle Disney 1000 pieces'')
             (trim (toLowerCase '' Jeux'')) ?p"
    by code_simp
  have n: "p_name ?p = ''Puzzles Disney pieces''"
    by (simp add: exampleProduct_def)
  have k: "keptTokens (normalizeProductName ''Puzzle Disney 1000 pieces'')
     = [''puzzle'', ''disney'', ''1000'', ''pieces'']"
    by code_simp
  from fuzzyTier_meets_spec [OF c, of "''Puzzle Disney 1000 pieces''"] f n
  have "specFuzzyMatch ''Puzzle Disney 1000 pieces'' ''Puzzles Disney pieces''"
    by simp
  with c f k show ?thesis by simp
qed

section \<open>Normalizing twice\<close>

lemma isSpace_not_isWord: "isSpace c \<Longrightarrow> \<not> isWord c"
  by (auto simp: isSpace_def isWord_def Let_def)


lemma not_isWord_space: "\<not> isWord CHR '' ''"
  by (simp add: isWord_def)

lemma wordEnd_append:
  "\<not> isWord d \<Longrightarrow> wordEnd (r @ d # v) = wordEnd r"
  by (cases r) (simp_all add: wordEnd_def)

lemma matchLit_word_prefix:
  assumes lit: "\<forall>c \<in> set lit. isWord c"
  shows "matchLit lit s = matchLit lit (takeWhile isWord s)"
proof (cases "dropWhile isWord s")
  case Nil
  then have "takeWhile isWord s = s"
    by (simp add: dropWhile_eq_Nil_conv)
  then show ?thesis by (simp only:)
next
  case (Cons d v)
  let ?u = "takeWhile isWord s"
  from Cons have s: "s = ?u @ d # v" and d: "\<not> isWord d"
    by (simp_all add: dropWhile_eq_Cons_conv)
  from d have ds: "d \<noteq> CHR ''s''"
    by (auto simp: isWord_def)
  have eq: "matchLit lit (?u @ d # v) = matchLit lit ?u"
  proof (cases "length lit \<le> length ?u")
    case True
    then have t: "take (length lit) (?u @ d # v) = take (length lit) ?u"
      and dr: "drop (length lit) (?u @ d # v) = drop (length lit) ?u @ d # v"
      by simp_all
    show ?thesis
    proof (cases "drop (length lit) ?u")
      case Nil
      show ?thesis
        unfolding matchLit_def t dr Nil using d ds by simp
    next
      case (Cons c r)
      show ?thesis
        unfolding matchLit_def t dr Cons using d by (simp add: wordEnd_append)
    qed
  next
    case False
    then have lt: "length ?u < length lit" by simp
    have short: "take (length lit) ?u \<noteq> lit"
    proof
      assume "take (length lit) ?u = lit"
      then have "length (take (length lit) ?u) = length lit" by simp
      with lt show False by simp
    qed
    have "take (length lit) (?u @ d # v) \<noteq> lit"
    proof
      assume e: "take (length lit) (?u @ d # v) = lit"
      from lt have "take (length lit) (?u @ d # v) = ?u @ take (length lit - length ?u) (d # v)"
        by simp
      moreover from lt obtain k where "length lit - length ?u = Suc k"
        by (cases "length lit - length ?u") simp_all
      ultimately have "take (length lit) (?u @ d # v) = ?u @ d # take k v"
        by simp
      with e have "d \<in> set lit" by (metis in_set_conv_decomp)
      with lit d show False by simp
    qed
    with short show ?thesis
      by (simp add: matchLit_def)
  qed
  from s have "matchLit lit s = matchLit lit (?u @ d # v)"
    by (rule arg_cong)
  with eq show ?thesis by (simp only:)
qed

lemma matchSizeToken_word_prefix: "matchSizeToken s = matchSizeToken (takeWhile isWord s)"
proof -
  have "matchLit ''100'' s = matchLit ''100'' (takeWhile isWord s)"
    by (rule matchLit_word_prefix) (simp add: isWord_def)
  moreover have "matchLit ''20'' s = matchLit ''20'' (takeWhile isWord s)"
    by (rule matchLit_word_prefix) (simp add: isWord_def)
  moreover have "matchLit ''25'' s = matchLit ''25'' (takeWhile isWord s)"
    by (rule matchLit_word_prefix) (simp add: isWord_def)
  ultimately show ?thesis
    by (simp only: matchSizeToken_def)
qed

lemma matchSizeToken_Nil: "matchSizeToken [] = 0"
  by (simp add: matchSizeToken_def matchLit_def)

lemma matchSizeToken_not_word: "\<not> isWord c \<Longrightarrow> matchSizeToken (c # cs) = 0"
  using matchSizeToken_word_prefix [of "c # cs"] by (simp add: matchSizeToken_Nil)

lemma matchSizeToken_cong:
  "takeWhile isWord s = takeWhile isWord t \<Longrightarrow> matchSizeToken s = matchSizeToken t"
  using matchSizeToken_word_prefix [of s] matchSizeToken_word_prefix [of t] by simp

lemma wordEnd_matchLit: "0 < matchLit lit s \<Longrightarrow> wordEnd (drop (matchLit lit s) s)"
proof (cases "take (length lit) s = lit")
  case False
  assume "0 < matchLit lit s"
  with False show ?thesis by (simp add: matchLit_def)
next
  case True
  assume pos: "0 < matchLit lit s"
  show ?thesis
  proof (cases "drop (length lit) s")
    case Nil
    with True show ?thesis by (simp add: matchLit_def wordEnd_def)
  next
    case (Cons c r)
    have r: "drop (Suc (length lit)) s = r"
      using Cons by (metis drop_Suc list.sel(3) tl_drop)
    show ?thesis
    proof (cases "c = CHR ''s'' \<and> wordEnd r")
      case yes: True
      with True Cons have "matchLit lit s = length lit + 1"
        by (simp add: matchLit_def)
      with yes r show ?thesis by simp
    next
      case no: False
      with True Cons pos have "matchLit lit s = length lit" "\<not> isWord c"
        by (auto simp: matchLit_def split: if_splits)
      with Cons show ?thesis by (simp add: wordEnd_def)
    qed
  qed
qed

lemma wordEnd_matchSizeToken:
  "0 < matchSizeToken s \<Longrightarrow> wordEnd (drop (matchSizeToken s) s)"
  by (auto simp: matchSizeToken_def wordEnd_matchLit split: if_splits)

lemma removeSizeTokens_noToken: "noToken p s \<Longrightarrow> removeSizeTokens p s = s"
  by (induction s arbitrary: p) auto

lemma takeWhile_removeSizeTokens:
  "takeWhile isWord (removeSizeTokens True s) = takeWhile isWord s"
  by (induction s) simp_all

lemma removeSizeTokens_True_Cons:
  "removeSizeTokens True (c # cs) = c # removeSizeTokens (isWord c) cs"
  by simp

lemma noToken_flag:
  assumes "wordEnd s"
  shows "noToken False (removeSizeTokens True s) = noToken True (removeSizeTokens True s)"
proof (cases s)
  case Nil
  then show ?thesis by simp
next
  case (Cons d r)
  with assms have "\<not> isWord d" by (simp add: wordEnd_def)
  then show ?thesis
    unfolding Cons removeSizeTokens_True_Cons by (simp add: matchSizeToken_not_word)
qed

lemma matchSizeToken_removed:
  "matchSizeToken (c # removeSizeTokens (isWord c) cs) = matchSizeToken (c # cs)"
proof (cases "isWord c")
  case True
  then show ?thesis
    by (intro matchSizeToken_cong) (simp add: takeWhile_removeSizeTokens)
next
  case False
  then show ?thesis by (simp add: matchSizeToken_not_word)
qed

lemma noToken_removeSizeTokens: "noToken p (removeSizeTokens p s)"
proof (induction p s rule: removeSizeTokens.induct)
  case (1 prevWord)
  then show ?case by simp
next
  case (2 prevWord c cs)
  show ?case
  proof (cases "\<not> prevWord \<and> 0 < matchSizeToken (c # cs)")
    case True
    let ?rest = "drop (matchSizeToken (c # cs)) (c # cs)"
    from True 2 have "noToken True (removeSizeTokens True ?rest)"
      by simp
    moreover from True have "wordEnd ?rest"
      by (simp add: wordEnd_matchSizeToken)
    ultimately have "noToken False (removeSizeTokens True ?rest)"
      by (simp add: noToken_flag)
    with True show ?thesis by simp
  next
    case False
    with 2 have "noToken (isWord c) (removeSizeTokens (isWord c) cs)"
      by simp
    moreover from False
    have "removeSizeTokens prevWord (c # cs) = c # removeSizeTokens (isWord c) cs"
      by (simp only: removeSizeTokens.simps if_False)
    moreover from False
    have "\<not> (\<not> prevWord \<and> 0 < matchSizeToken (c # removeSizeTokens (isWord c) cs))"
      by (simp add: matchSizeToken_removed)
    ultimately show ?thesis
      by simp
  qed
qed

lemma noToken_dropWhile_isSpace:
  "noToken False s \<Longrightarrow> noToken False (dropWhile isSpace s)"
  by (induction s) (auto simp: isSpace_not_isWord)

lemma takeWhile_snoc_not: "\<not> P d \<Longrightarrow> takeWhile P (xs @ [d]) = takeWhile P xs"
  by (induction xs) simp_all

lemma noToken_butlast:
  "\<not> isWord d \<Longrightarrow> noToken p (s @ [d]) \<Longrightarrow> noToken p s"
proof (induction s arbitrary: p)
  case Nil
  then show ?case by simp
next
  case (Cons c cs)
  have "takeWhile isWord ((c # cs) @ [d]) = takeWhile isWord (c # cs)"
    using Cons.prems(1) by (rule takeWhile_snoc_not)
  then have m: "matchSizeToken (c # cs @ [d]) = matchSizeToken (c # cs)"
    using matchSizeToken_cong by simp
  from Cons.prems(2) have "noToken (isWord c) (cs @ [d])"
    by simp
  with Cons.IH Cons.prems(1) have "noToken (isWord c) cs"
    by blast
  with Cons.prems(2) m show ?case by simp
qed

lemma noToken_prefix:
  "\<forall>c \<in> set t. \<not> isWord c \<Longrightarrow> noToken p (s @ t) \<Longrightarrow> noToken p s"
proof (induction t rule: rev_induct)
  case Nil
  then show ?case by simp
next
  case (snoc d t)
  from snoc.prems have "noToken p ((s @ t) @ [d])" "\<not> isWord d"
    by simp_all
  then have "noToken p (s @ t)"
    using noToken_butlast by blast
  with snoc show ?case by simp
qed

lemma noToken_trim: "noToken False s \<Longrightarrow> noToken False (trim s)"
proof -
  assume "noToken False s"
  then have a: "noToken False (dropWhile isSpace s)"
    by (rule noToken_dropWhile_isSpace)
  let ?a = "dropWhile isSpace s"
  have "rev (dropWhile isSpace (rev ?a)) @ rev (takeWhile isSpace (rev ?a))
        = rev (takeWhile isSpace (rev ?a) @ dropWhile isSpace (rev ?a))"
    by (simp only: rev_append)
  also have "\<dots> = rev (rev ?a)"
    by (simp only: takeWhile_dropWhile_id)
  also have "\<dots> = ?a"
    by simp
  finally have split:
    "rev (dropWhile isSpace (rev ?a)) @ rev (takeWhile isSpace (rev ?a)) = ?a" .
  have "\<forall>c \<in> set (rev (takeWhile isSpace (rev ?a))). \<not> isWord c"
    by (auto dest: set_takeWhileD simp: isSpace_not_isWord)
  moreover from a
  have "noToken False (rev (dropWhile isSpace (rev ?a)) @ rev (takeWhile isSpace (rev ?a)))"
    by (simp only: split)
  ultimately have "noToken False (rev (dropWhile isSpace (rev ?a)))"
    by (rule noToken_prefix)
  then show ?thesis by (simp add: trim_def)
qed

lemma takeWhile_replaceSpaces:
  "takeWhile isWord (replaceSpaces s) = takeWhile isWord s"
proof (induction s rule: replaceSpaces.induct)
  case 1
  then show ?case by simp
next
  case (2 c cs)
  then show ?case
    by (simp add: isSpace_not_isWord not_isWord_space)
qed

lemma noToken_replaceSpaces: "noToken p s \<Longrightarrow> noToken p (replaceSpaces s)"
proof (induction s arbitrary: p rule: replaceSpaces.induct)
  case 1
  then show ?case by simp
next
  case (2 c cs)
  show ?case
  proof (cases "isSpace c")
    case True
    then have w: "\<not> isWord c" by (rule isSpace_not_isWord)
    with "2.prems" have "noToken False cs" by simp
    then have "noToken False (dropWhile isSpace cs)"
      by (rule noToken_dropWhile_isSpace)
    with "2.IH"(1) True have "noToken False (replaceSpaces (dropWhile isSpace cs))"
      by blast
    with True show ?thesis
      by (simp add: matchSizeToken_not_word not_isWord_space)
  next
    case False
    from "2.prems" have "noToken (isWord c) cs" by simp
    with "2.IH"(2) False have "noToken (isWord c) (replaceSpaces cs)"
      by blast
    moreover have "matchSizeToken (c # replaceSpaces cs) = matchSizeToken (c # cs)"
      by (intro matchSizeToken_cong) (simp add: takeWhile_replaceSpaces)
    ultimately show ?thesis
      using False "2.prems" by simp
  qed
qed

lemma trim_trimmed: "trimmed s \<Longrightarrow> trim s = s"
proof (cases "s = []")
  case True
  then show ?thesis by (simp add: trim_def)
next
  case False
  assume "trimmed s"
  with False have h: "\<not> isSpace (hd s)" and l: "\<not> isSpace (last s)"
    by (simp_all add: trimmed_def)
  from h have a: "dropWhile isSpace s = s"
    by (simp add: dropWhile_eq_self_iff)
  from l False have "dropWhile isSpace (rev s) = rev s"
    by (simp add: dropWhile_eq_self_iff hd_rev)
  with a show ?thesis by (simp add: trim_def)
qed

lemma last_dropWhile: "dropWhile P xs \<noteq> [] \<Longrightarrow> last (dropWhile P xs) = last xs"
  by (induction xs) (auto split: if_splits)

lemma trimmed_trim: "trimmed (trim s)"
proof (cases "trim s = []")
  case True
  then show ?thesis by (simp add: trimmed_def)
next
  case False
  let ?a = "dropWhile isSpace s"
  let ?b = "dropWhile isSpace (rev ?a)"
  from False have b: "?b \<noteq> []"
    by (simp add: trim_def)
  have a: "?a \<noteq> []"
  proof
    assume "?a = []"
    then have "?b = []" by (simp only: rev.simps dropWhile.simps)
    with b show False by blast
  qed
  from b have "\<not> isSpace (hd ?b)"
    by (rule hd_dropWhile)
  then have l: "\<not> isSpace (last (trim s))"
    using b by (simp add: trim_def last_rev)
  from b have "last ?b = last (rev ?a)"
    by (rule last_dropWhile)
  also have "\<dots> = hd ?a"
    using a by (simp add: last_rev)
  finally have "hd (trim s) = hd ?a"
    using b by (simp add: trim_def hd_rev)
  moreover from a have "\<not> isSpace (hd ?a)"
    by (rule hd_dropWhile)
  ultimately show ?thesis
    using l by (simp add: trimmed_def)
qed

lemma replaceSpaces_Nil_iff: "replaceSpaces s = [] \<longleftrightarrow> s = []"
  by (cases s) simp_all

lemma hd_replaceSpaces: "s \<noteq> [] \<Longrightarrow> isSpace (hd (replaceSpaces s)) = isSpace (hd s)"
  by (cases s) (simp_all add: isSpace_space)

lemma last_replaceSpaces: "s \<noteq> [] \<Longrightarrow> isSpace (last (replaceSpaces s)) = isSpace (last s)"
proof (induction s rule: replaceSpaces.induct)
  case 1
  then show ?case by simp
next
  case (2 c cs)
  show ?case
  proof (cases "isSpace c")
    case True
    show ?thesis
    proof (cases "dropWhile isSpace cs = []")
      case Nil: True
      then have "\<forall>x \<in> set cs. isSpace x"
        by (simp add: dropWhile_eq_Nil_conv)
      with True have l: "isSpace (last (c # cs))"
        by (metis last_in_set list.distinct(1) set_ConsD)
      from True have r: "replaceSpaces (c # cs) = [CHR '' '']"
        by (simp only: replaceSpaces.simps Nil if_True)
      show ?thesis
        unfolding r using l by (simp add: isSpace_space)
    next
      case ne: False
      with "2.IH"(1) True have
        "isSpace (last (replaceSpaces (dropWhile isSpace cs))) = isSpace (last (dropWhile isSpace cs))"
        by blast
      also have "last (dropWhile isSpace cs) = last cs"
        using ne by (rule last_dropWhile)
      finally have i: "isSpace (last (replaceSpaces (dropWhile isSpace cs))) = isSpace (last cs)" .
      from ne have cs: "cs \<noteq> []" by auto
      from ne have x: "replaceSpaces (dropWhile isSpace cs) \<noteq> []"
        using replaceSpaces_Nil_iff by blast
      from True have r: "replaceSpaces (c # cs) =
          CHR '' '' # replaceSpaces (dropWhile isSpace cs)"
        by (simp only: replaceSpaces.simps if_True)
      have "last (replaceSpaces (c # cs)) = last (replaceSpaces (dropWhile isSpace cs))"
        unfolding r using x by (rule last_ConsR)
      moreover have "last (c # cs) = last cs"
        using cs by (rule last_ConsR)
      ultimately show ?thesis
        using i by (simp only:)
    qed
  next
    case False
    show ?thesis
    proof (cases "cs = []")
      case True
      with False show ?thesis by simp
    next
      case ne: False
      with "2.IH"(2) False have "isSpace (last (replaceSpaces cs)) = isSpace (last cs)"
        by blast
      with False ne show ?thesis
        by (simp add: replaceSpaces_Nil_iff)
    qed
  qed
qed

lemma trimmed_replaceSpaces: "trimmed s \<Longrightarrow> trimmed (replaceSpaces s)"
  by (cases "s = []")
     (simp_all add: trimmed_def replaceSpaces_Nil_iff hd_replaceSpaces last_replaceSpaces)

lemma toLowerChar_idem: "toLowerChar (toLowerChar c) = toLowerChar c"
  by (auto simp: toLowerChar_def Let_def)

lemma toLowerChar_space: "toLowerChar CHR '' '' = CHR '' ''"
  by (simp add: toLowerChar_def)

lemma set_replaceSpaces: "set (replaceSpaces s) \<subseteq> insert CHR '' '' (set s)"
proof (induction s rule: replaceSpaces.induct)
  case 1
  then show ?case by simp
next
  case (2 c cs)
  show ?case
  proof (cases "isSpace c")
    case True
    with 2 have "set (replaceSpaces (dropWhile isSpace cs)) \<subseteq> insert CHR '' '' (set (dropWhile isSpace cs))"
      by simp
    also have "\<dots> \<subseteq> insert CHR '' '' (set cs)"
      by (auto dest: set_dropWhileD)
    finally show ?thesis using True by auto
  next
    case False
    with 2 show ?thesis by auto
  qed
qed

lemma clean_spaces: "clean s \<Longrightarrow> c \<in> set s \<Longrightarrow> isSpace c \<Longrightarrow> c = CHR '' ''"
  using isSpace_not_isWord by (auto simp: clean_def)

lemma toLowerCase_clean: "clean s \<Longrightarrow> toLowerCase s = s"
  by (simp add: clean_def toLowerCase_def map_idI)

lemma removeSpecial_clean:
  assumes "clean s"
  shows "removeSpecial s = s"
proof -
  have "\<forall>c \<in> set s. isWord c \<or> isSpace c"
  proof
    fix c
    assume "c \<in> set s"
    with assms have "isWord c \<or> c = CHR '' ''"
      unfolding clean_def by blast
    then show "isWord c \<or> isSpace c"
      using isSpace_space by blast
  qed
  then show ?thesis
    unfolding removeSpecial_def by (rule filter_True)
qed

lemma clean_replaceSpaces: "clean s \<Longrightarrow> clean (replaceSpaces s)"
  using set_replaceSpaces [of s]
  by (auto simp: clean_def toLowerChar_space)

lemma clean_subset: "clean s \<Longrightarrow> set t \<subseteq> set s \<Longrightarrow> clean t"
  by (auto simp: clean_def)

lemma clean_removeSpecial:
  "clean (removeSpecial (replaceSpaces (trim (toLowerCase x))))"
  unfolding clean_def
proof (intro ballI conjI)
  fix c
  assume c: "c \<in> set (removeSpecial (replaceSpaces (trim (toLowerCase x))))"
  then have w: "isWord c \<or> isSpace c"
    and r: "c \<in> set (replaceSpaces (trim (toLowerCase x)))"
    by (simp_all add: removeSpecial_def)
  from w r show "isWord c \<or> c = CHR '' ''"
    using spaces_replaceSpaces by blast
  from r set_replaceSpaces have "c = CHR '' '' \<or> c \<in> set (trim (toLowerCase x))"
    by blast
  then have "c = CHR '' '' \<or> c \<in> set (toLowerCase x)"
    using set_trim by blast
  then show "toLowerChar c = c"
    by (auto simp: toLowerChar_space toLowerCase_def toLowerChar_idem)
qed

lemma clean_normalizeProductName: "clean (normalizeProductName x)"
proof -
  have "set (normalizeProductName x)
        \<subseteq> set (removeSpecial (replaceSpaces (trim (toLowerCase x))))"
    unfolding normalizeProductName_def using set_trim set_removeSizeTokens by blast
  with clean_removeSpecial show ?thesis
    by (rule clean_subset)
qed

lemma noToken_normalizeProductName: "noToken False (normalizeProductName x)"
  unfolding normalizeProductName_def
  by (rule noToken_trim) (rule noToken_removeSizeTokens)

lemma trimmed_normalizeProductName: "trimmed (normalizeProductName x)"
  unfolding normalizeProductName_def by (rule trimmed_trim)

lemma normalizeProductName_twice:
  "normalizeProductName (normalizeProductName x) = replaceSpaces (normalizeProductName x)"
proof -
  let ?y = "normalizeProductName x"
  let ?y' = "replaceSpaces ?y"
  have 1: "toLowerCase ?y = ?y"
    by (rule toLowerCase_clean) (rule clean_normalizeProductName)
  have 2: "trim ?y = ?y"
    by (rule trim_trimmed) (rule trimmed_normalizeProductName)
  have 3: "removeSpecial ?y' = ?y'"
    by (rule removeSpecial_clean) (rule clean_replaceSpaces, rule clean_normalizeProductName)
  have 4: "removeSizeTokens False ?y' = ?y'"
    by (rule removeSizeTokens_noToken)
       (rule noToken_replaceSpaces, rule noToken_normalizeProductName)
  have 5: "trim ?y' = ?y'"
    by (rule trim_trimmed) (rule trimmed_replaceSpaces, rule trimmed_normalizeProductName)
  have "normalizeProductName ?y =
        trim (removeSizeTokens False (removeSpecial (replaceSpaces (trim (toLowerCase ?y)))))"
    by (rule normalizeProductName_def)
  also have "\<dots> = ?y'"
    by (simp only: 1 2 3 4 5)
  finally show ?thesis .
qed

lemma length_replaceSpaces: "length (replaceSpaces s) \<le> length s"
proof (induction s rule: replaceSpaces.induct)
  case 1
  then show ?case by simp
next
  case (2 c cs)
  show ?case
  proof (cases "isSpace c")
    case True
    with 2 have "length (replaceSpaces (dropWhile isSpace cs)) \<le> length (dropWhile isSpace cs)"
      by simp
    also have "\<dots> \<le> length cs"
      by (rule length_dropWhile_le)
    finally show ?thesis using True by simp
  next
    case False
    with 2 show ?thesis by simp
  qed
qed

lemma replaceSpaces_fixed:
  "\<forall>c \<in> set s. isSpace c \<longrightarrow> c = CHR '' '' \<Longrightarrow>
   replaceSpaces s = s \<longleftrightarrow> \<not> adjacentSpaces s"
proof (induction s rule: adjacentSpaces.induct)
  case 1
  show ?case by simp
next
  case (2 c)
  have "replaceSpaces [c] = [c]"
  proof (cases "isSpace c")
    case True
    with "2.prems" have "c = CHR '' ''"
      by (blast intro: list.set_intros)
    with True show ?thesis
      by (subst replaceSpaces.simps) (simp only: if_True dropWhile.simps replaceSpaces.simps)
  next
    case False
    then show ?thesis
      by (subst replaceSpaces.simps) (simp only: if_False replaceSpaces.simps)
  qed
  then show ?case
    by (simp only: adjacentSpaces.simps simp_thms)
next
  case (3 a b cs)
  have sa: "isSpace a \<Longrightarrow> a = CHR '' ''" and sb: "isSpace b \<Longrightarrow> b = CHR '' ''"
    using "3.prems" by (blast intro: list.set_intros)+
  have "\<forall>c \<in> set (b # cs). isSpace c \<longrightarrow> c = CHR '' ''"
    using "3.prems" by (blast intro: list.set_intros)
  then have IH: "replaceSpaces (b # cs) = b # cs \<longleftrightarrow> \<not> adjacentSpaces (b # cs)"
    by (rule "3.IH")
  show ?case
  proof (cases "isSpace a")
    case False
    then have na: "a \<noteq> CHR '' ''"
      using isSpace_space by blast
    have r: "replaceSpaces (a # b # cs) = a # replaceSpaces (b # cs)"
      by (subst replaceSpaces.simps) (simp only: False if_False)
    have ad: "adjacentSpaces (a # b # cs) = adjacentSpaces (b # cs)"
      by (subst adjacentSpaces.simps) (simp only: na simp_thms)
    show ?thesis
      unfolding r ad list.inject using IH by blast
  next
    case True
    then have a: "a = CHR '' ''" by (rule sa)
    have r: "replaceSpaces (a # b # cs) =
        CHR '' '' # replaceSpaces (dropWhile isSpace (b # cs))"
      by (subst replaceSpaces.simps) (simp only: True if_True)
    show ?thesis
    proof (cases "isSpace b")
      case sb': True
      then have b: "b = CHR '' ''" by (rule sb)
      have d: "dropWhile isSpace (b # cs) = dropWhile isSpace cs"
        by (simp only: dropWhile.simps sb' if_True)
      have "length (replaceSpaces (dropWhile isSpace cs)) \<le> length (dropWhile isSpace cs)"
        by (rule length_replaceSpaces)
      also have "\<dots> \<le> length cs"
        by (rule length_dropWhile_le)
      finally have "length (CHR '' '' # replaceSpaces (dropWhile isSpace cs))
          < length (a # b # cs)"
        by simp
      then have "CHR '' '' # replaceSpaces (dropWhile isSpace cs) \<noteq> a # b # cs"
        by (metis less_irrefl)
      then have ne: "replaceSpaces (a # b # cs) \<noteq> a # b # cs"
        unfolding r d .
      have "adjacentSpaces (a # b # cs)"
        by (subst adjacentSpaces.simps) (simp only: a b simp_thms)
      with ne show ?thesis by blast
    next
      case nb: False
      then have b: "b \<noteq> CHR '' ''"
        using isSpace_space by blast
      have d: "dropWhile isSpace (b # cs) = b # cs"
        by (simp only: dropWhile.simps nb if_False)
      have ad: "adjacentSpaces (a # b # cs) = adjacentSpaces (b # cs)"
        by (subst adjacentSpaces.simps) (simp only: b simp_thms)
      show ?thesis
        unfolding r d ad list.inject using IH a by blast
    qed
  qed
qed


text \<open>
  Claim C2, as the specification states it, fails. The size token of \<^verbatim>\<open>Puzzle 100 Pieces\<close>
  is removed after the runs of white space were collapsed, which leaves two adjacent
  spaces; a second normalization collapses them.
\<close>

theorem normalize_not_idempotent:
  "normalizeProductName ''Puzzle 100 Pieces'' = ''puzzle  pieces'' \<and>
   normalizeProductName (normalizeProductName ''Puzzle 100 Pieces'') = ''puzzle pieces'' \<and>
   normalizeProductName (normalizeProductName ''Puzzle 100 Pieces'')
     \<noteq> normalizeProductName ''Puzzle 100 Pieces''"
  by code_simp


text \<open>
  Claim C2, amended. Normalizing a normalized name changes it exactly when the normalized
  name holds two adjacent spaces (left by a removed punctuation mark or size token between
  two spaces): for every string \<open>x\<close>, \<open>normalize (normalize x) = normalize x\<close> if and
  only if \<open>normalize x\<close> has no two adjacent spaces. A second normalization does no more
  than collapse such runs (lemma \<open>normalizeProductName_twice\<close>).
\<close>

theorem normalize_idempotent_iff:
  "normalizeProductName (normalizeProductName x) = normalizeProductName x
   \<longleftrightarrow> \<not> adjacentSpaces (normalizeProductName x)"
proof -
  have "\<forall>c \<in> set (normalizeProductName x). isSpace c \<longrightarrow> c = CHR '' ''"
    using clean_spaces [OF clean_normalizeProductName] by blast
  then have "replaceSpaces (normalizeProductName x) = normalizeProductName x
     \<longleftrightarrow> \<not> adjacentSpaces (normalizeProductName x)"
    by (rule replaceSpaces_fixed)
  then show ?thesis
    by (simp only: normalizeProductName_twice)
qed

text \<open>\<^verbatim>\<open>Coca Cola 100S\<close>: the size token stands at the end, the trailing space is trimmed,
  and the normalized name is a fixed point.\<close>

theorem normalize_idempotent_iff_witness:
  "\<not> adjacentSpaces (normalizeProductName ''Coca Cola 100S'') \<and>
   normalizeProductName (normalizeProductName ''Coca Cola 100S'')
     = normalizeProductName ''Coca Cola 100S''"
proof -
  have "\<not> adjacentSpaces (normalizeProductName ''Coca Cola 100S'')"
    by code_simp
  with normalize_idempotent_iff [of "''Coca Cola 100S''"] show ?thesis
    by blast
qed

end
